theory Spec2Isabelle
  imports Complex_Main
begin

section \<open>Top-languages fetcher: a shallow embedding of \<open>src/fetchers/top-languages-fetcher.js\<close>\<close>

text \<open>
  The source is one asynchronous function, \<open>fetchTopLanguages\<close>, which guards its
  \<open>username\<close> parameter, awaits the retrying fetcher, classifies an error payload and
  then runs a pure pipeline over the repository nodes: hide repositories, flatten the
  language edges, aggregate them by normalised name with a shared counter, weight the
  sizes and rank the entries. Each stage of that pipeline is one definition below, named
  after the variable or comment of the source it embeds.

  JavaScript values are modelled as follows.
  \<^item> Numbers are \<open>jsnum\<close>: a finite value, the two infinities or NaN. The results
    of \<open>*\<close> and of \<open>Math.pow\<close> are rounded to binary64 (\<open>to_double\<close>): to the
    nearest double, ties to even, to an infinity on overflow and to zero on underflow.
    \<open>Num 0\<close> stands for \<open>+0\<close>; the pipeline never produces \<open>-0\<close>.
  \<^item> A plain object is the list of its own enumerable properties in the order
    \<open>Object.keys\<close> enumerates them, together with the properties every plain object
    inherits from \<open>Object.prototype\<close>.
  \<^item> A thrown exception (a rejected promise of the asynchronous function) is a value
    \<open>Inl e\<close> of the result type.
\<close>

subsection \<open>Numbers\<close>

datatype jsnum = Num real | PosInfinity | NegInfinity | NaN

text \<open>
  Rounding a real number to binary64. A double is an integral multiple of the quantum
  of its binade: \<open>2^(e - 52)\<close> for a magnitude in \<open>[2^e, 2^(e + 1))\<close>, and
  \<open>2^(-1074)\<close> below \<open>2^(-1022)\<close>, the subnormal range. The nearest multiple is
  taken, the even one at a tie; a result of magnitude \<open>2^1024\<close> is an infinity.
  Zero is a multiple of every quantum and is left as it is.
\<close>

definition round_half_even :: "real \<Rightarrow> int" where
  "round_half_even y =
     (if y - of_int \<lfloor>y\<rfloor> < 1 / 2 then \<lfloor>y\<rfloor>
      else if 1 / 2 < y - of_int \<lfloor>y\<rfloor> then \<lfloor>y\<rfloor> + 1
      else if even \<lfloor>y\<rfloor> then \<lfloor>y\<rfloor> else \<lfloor>y\<rfloor> + 1)"

definition binade :: "real \<Rightarrow> int" where
  "binade x = max \<lfloor>log 2 \<bar>x\<bar>\<rfloor> (- 1022)"

definition quantum :: "real \<Rightarrow> real" where
  "quantum x = 2 powi (binade x - 52)"

definition nearest_double :: "real \<Rightarrow> real" where
  "nearest_double x = of_int (round_half_even (x / quantum x)) * quantum x"

definition to_double :: "real \<Rightarrow> jsnum" where
  "to_double x =
     (if 2 ^ 1024 \<le> nearest_double x then PosInfinity
      else if nearest_double x \<le> - (2 ^ 1024) then NegInfinity
      else Num (nearest_double x))"

text \<open>
  The binary \<open>+\<close> of two numbers. The source adds byte counts only: integers whose
  sums below \<open>2^53\<close> are doubles, so that the sum is left unrounded.
\<close>

fun js_add :: "jsnum \<Rightarrow> jsnum \<Rightarrow> jsnum" where
  "js_add (Num a) (Num b) = Num (a + b)"
| "js_add NaN _ = NaN"
| "js_add _ NaN = NaN"
| "js_add PosInfinity NegInfinity = NaN"
| "js_add NegInfinity PosInfinity = NaN"
| "js_add PosInfinity _ = PosInfinity"
| "js_add _ PosInfinity = PosInfinity"
| "js_add NegInfinity _ = NegInfinity"
| "js_add _ NegInfinity = NegInfinity"

text \<open>
  The binary \<open>-\<close> of two numbers, as the two sort comparators use it. The sort reads
  the sign of the difference only, and the rounded difference of two doubles has the
  sign of the exact one, so that the difference is left unrounded.
\<close>

fun js_sub :: "jsnum \<Rightarrow> jsnum \<Rightarrow> jsnum" where
  "js_sub (Num a) (Num b) = Num (a - b)"
| "js_sub NaN _ = NaN"
| "js_sub _ NaN = NaN"
| "js_sub PosInfinity PosInfinity = NaN"
| "js_sub NegInfinity NegInfinity = NaN"
| "js_sub PosInfinity _ = PosInfinity"
| "js_sub _ NegInfinity = PosInfinity"
| "js_sub NegInfinity _ = NegInfinity"
| "js_sub _ PosInfinity = NegInfinity"

text \<open>
  The binary \<open>*\<close>: the product of two finite numbers is rounded (it overflows to an
  infinity and underflows to zero); an infinity times zero is NaN, otherwise the signs
  multiply.
\<close>

definition signed_infinity :: "bool \<Rightarrow> jsnum" where
  "signed_infinity positive = (if positive then PosInfinity else NegInfinity)"

fun js_mul :: "jsnum \<Rightarrow> jsnum \<Rightarrow> jsnum" where
  "js_mul (Num a) (Num b) = to_double (a * b)"
| "js_mul NaN _ = NaN"
| "js_mul _ NaN = NaN"
| "js_mul PosInfinity (Num b) = (if b = 0 then NaN else signed_infinity (0 < b))"
| "js_mul NegInfinity (Num b) = (if b = 0 then NaN else signed_infinity (b < 0))"
| "js_mul (Num a) PosInfinity = (if a = 0 then NaN else signed_infinity (0 < a))"
| "js_mul (Num a) NegInfinity = (if a = 0 then NaN else signed_infinity (a < 0))"
| "js_mul PosInfinity PosInfinity = PosInfinity"
| "js_mul NegInfinity NegInfinity = PosInfinity"
| "js_mul PosInfinity NegInfinity = NegInfinity"
| "js_mul NegInfinity PosInfinity = NegInfinity"

definition is_integer :: "real \<Rightarrow> bool" where
  "is_integer e = (e = of_int \<lfloor>e\<rfloor>)"

definition is_odd_integer :: "real \<Rightarrow> bool" where
  "is_odd_integer e = (is_integer e \<and> odd \<lfloor>e\<rfloor>)"

text \<open>
  \<open>Math.pow(base, exponent)\<close> for a finite exponent (the two weights are finite
  numbers): an exponent of zero gives 1 whatever the base, also for NaN; a NaN base gives
  NaN otherwise; zero to a negative power is \<open>+Infinity\<close>; a negative base has a
  result for integer exponents only. The standard leaves the accuracy of the other
  results to the implementation; the model takes the real power rounded to the nearest
  double, so that a power beyond the largest double is \<open>+Infinity\<close> and a power
  below half the smallest one is zero.
\<close>

definition Math_pow :: "jsnum \<Rightarrow> real \<Rightarrow> jsnum" where
  "Math_pow base e =
     (if e = 0 then Num 1
      else case base of
          NaN \<Rightarrow> NaN
        | PosInfinity \<Rightarrow> (if 0 < e then PosInfinity else Num 0)
        | NegInfinity \<Rightarrow>
            (if 0 < e then (if is_odd_integer e then NegInfinity else PosInfinity)
             else Num 0)
        | Num x \<Rightarrow>
            (if 0 < x then to_double (x powr e)
             else if x = 0 then (if 0 < e then Num 0 else PosInfinity)
             else if is_integer e then to_double (x powi \<lfloor>e\<rfloor>)
             else NaN))"

text \<open>
  \<open>Array.prototype.sort\<close> reads a comparator result \<open>v\<close> only through \<open>v < 0\<close> and
  \<open>v > 0\<close>; NaN counts as zero. \<open>js_positive v\<close> is \<open>v > 0\<close>.
\<close>

fun js_positive :: "jsnum \<Rightarrow> bool" where
  "js_positive (Num r) = (0 < r)"
| "js_positive PosInfinity = True"
| "js_positive NegInfinity = False"
| "js_positive NaN = False"

text \<open>The relational \<open><=\<close> on numbers; every comparison with NaN is false.\<close>

fun js_le :: "jsnum \<Rightarrow> jsnum \<Rightarrow> bool" where
  "js_le NaN _ = False"
| "js_le _ NaN = False"
| "js_le NegInfinity _ = True"
| "js_le _ PosInfinity = True"
| "js_le (Num a) (Num b) = (a \<le> b)"
| "js_le PosInfinity _ = False"
| "js_le _ NegInfinity = False"

subsection \<open>Sorting\<close>

text \<open>
  \<open>Array.prototype.sort(cmp)\<close> is stable (ECMAScript 2019). It is modelled by the
  stable insertion sort: an element moves behind exactly those elements the comparator
  puts strictly before it. For a consistent comparator every stable sort returns this
  list. For an inconsistent one (a comparator that returns NaN for some pairs and a sign
  for others) the standard leaves the order to the implementation, and the runtime's
  sort can return another order than this one. The statements below use \<open>js_sort\<close>
  either in a way that does not depend on the order of its result (membership, sums),
  or on inputs whose comparator is consistent.
\<close>

fun js_insert :: "('a \<Rightarrow> 'a \<Rightarrow> jsnum) \<Rightarrow> 'a \<Rightarrow> 'a list \<Rightarrow> 'a list" where
  "js_insert cmp x [] = [x]"
| "js_insert cmp x (y # ys) =
     (if js_positive (cmp x y) then y # js_insert cmp x ys else x # y # ys)"

fun js_sort :: "('a \<Rightarrow> 'a \<Rightarrow> jsnum) \<Rightarrow> 'a list \<Rightarrow> 'a list" where
  "js_sort cmp [] = []"
| "js_sort cmp (x # xs) = js_insert cmp x (js_sort cmp xs)"

subsection \<open>Plain objects\<close>

text \<open>
  The names every plain object inherits from \<open>Object.prototype\<close>. A read
  \<open>obj[k]\<close> of such a name on an object without an own property \<open>k\<close> yields the
  inherited function (or, for \<open>__proto__\<close>, the prototype object): a truthy value
  without a \<open>size\<close> property.
\<close>

definition object_prototype_keys :: "string list" where
  "object_prototype_keys =
     [''constructor'', ''__defineGetter__'', ''__defineSetter__'', ''hasOwnProperty'',
      ''__lookupGetter__'', ''__lookupSetter__'', ''isPrototypeOf'',
      ''propertyIsEnumerable'', ''toString'', ''valueOf'', ''__proto__'',
      ''toLocaleString'']"

type_synonym 'v js_object = "(string \<times> 'v) list"

datatype 'v js_value = Own 'v | Inherited | Undefined

text \<open>The read \<open>obj[k]\<close>: an own property first, then the prototype.\<close>

definition js_get :: "'v js_object \<Rightarrow> string \<Rightarrow> 'v js_value" where
  "js_get obj k =
     (case map_of obj k of
        Some v \<Rightarrow> Own v
      | None \<Rightarrow> if k \<in> set object_prototype_keys then Inherited else Undefined)"

text \<open>
  Property order. Own keys that are array indices (the canonical decimal form of an
  integer below \<open>2^32 - 1 = 4294967295\<close>) are enumerated first, in ascending numeric order; every
  other string key follows in the order of its creation.
\<close>

definition is_digit :: "char \<Rightarrow> bool" where
  "is_digit c = (c \<in> set ''0123456789'')"

definition digit_value :: "char \<Rightarrow> nat" where
  "digit_value c = of_char c - 48"

definition array_index_of :: "string \<Rightarrow> nat" where
  "array_index_of s = foldl (\<lambda>n c. 10 * n + digit_value c) 0 s"

definition is_array_index :: "string \<Rightarrow> bool" where
  "is_array_index s =
     (s \<noteq> [] \<and> list_all is_digit s \<and> (length s = 1 \<or> hd s \<noteq> CHR ''0'')
      \<and> array_index_of s < 4294967295)"

fun insert_index :: "string \<Rightarrow> 'v \<Rightarrow> 'v js_object \<Rightarrow> 'v js_object" where
  "insert_index k v [] = [(k, v)]"
| "insert_index k v ((k', v') # rest) =
     (if is_array_index k' \<and> array_index_of k' < array_index_of k
      then (k', v') # insert_index k v rest
      else (k, v) # (k', v') # rest)"

text \<open>
  Defining an own data property, as the object literal \<open>{...acc, [k]: v}\<close> does after
  copying \<open>acc\<close>: an existing key keeps its place and takes the new value, a new key
  is placed by the order above. A computed key \<open>__proto__\<close> is an ordinary own
  property here.
\<close>

definition obj_define :: "string \<Rightarrow> 'v \<Rightarrow> 'v js_object \<Rightarrow> 'v js_object" where
  "obj_define k v obj =
     (if k \<in> fst ` set obj then map (\<lambda>(k', v'). if k' = k then (k', v) else (k', v')) obj
      else if is_array_index k then insert_index k v obj
      else obj @ [(k, v)])"

text \<open>
  The assignment \<open>obj[k] = v\<close> on a plain object. For \<open>k = "__proto__"\<close> it runs the
  setter inherited from \<open>Object.prototype\<close>, which replaces the prototype when \<open>v\<close>
  is an object and does nothing otherwise: no own property is created either way.
\<close>

definition obj_assign :: "string \<Rightarrow> 'v \<Rightarrow> 'v js_object \<Rightarrow> 'v js_object" where
  "obj_assign k v obj = (if k = ''__proto__'' then obj else obj_define k v obj)"

definition Object_keys :: "'v js_object \<Rightarrow> string list" where
  "Object_keys obj = map fst obj"

subsection \<open>Data\<close>

text \<open>
  The nodes of the GraphQL response: a repository has a \<open>name\<close> and
  \<open>languages.edges\<close>; an edge has a \<open>size\<close> (a byte count, a non-negative integer)
  and a \<open>node\<close> with \<open>color\<close> and \<open>name\<close>. The query of \<open>fetcher\<close> requests no
  repository \<open>size\<close>; \<open>repo_size\<close> is \<open>None\<close> where the property is absent.
\<close>

record language_node =
  node_color :: string
  node_name :: string

record edge =
  edge_size :: nat
  edge_node :: language_node

record repo =
  repo_name :: string
  repo_size :: "nat option"
  repo_edges :: "edge list"

text \<open>An entry of the result: \<open>{name, color, size, count}\<close>.\<close>

record lang =
  lang_name :: string
  lang_color :: string
  lang_size :: jsnum
  lang_count :: nat

type_synonym top_langs = "lang js_object"

subsection \<open>Hiding repositories (lines 99 to 112)\<close>

text \<open>
  \<open>exclude_repo.forEach((repoName) => { repoToHide[repoName] = true; })\<close>, starting
  from the empty object.
\<close>

definition repoToHide :: "string list \<Rightarrow> bool js_object" where
  "repoToHide exclude_repo = foldl (\<lambda>obj repoName. obj_assign repoName True obj) [] exclude_repo"

text \<open>Truthiness of \<open>repoToHide[repo.name]\<close>: inherited functions and objects are truthy.\<close>

definition is_hidden :: "string list \<Rightarrow> string \<Rightarrow> bool" where
  "is_hidden exclude_repo nm =
     (case js_get (repoToHide exclude_repo) nm of
        Own b \<Rightarrow> b
      | Inherited \<Rightarrow> True
      | Undefined \<Rightarrow> False)"

text \<open>The comparator \<open>(a, b) => b.size - a.size\<close>; an absent size converts to NaN.\<close>

definition repo_size_number :: "repo \<Rightarrow> jsnum" where
  "repo_size_number r = (case repo_size r of None \<Rightarrow> NaN | Some n \<Rightarrow> Num (real n))"

definition repo_cmp :: "repo \<Rightarrow> repo \<Rightarrow> jsnum" where
  "repo_cmp a b = js_sub (repo_size_number b) (repo_size_number a)"

definition presort :: "repo list \<Rightarrow> repo list" where
  "presort repoNodes = js_sort repo_cmp repoNodes"

definition visible_repos :: "string list \<Rightarrow> repo list \<Rightarrow> repo list" where
  "visible_repos exclude_repo repoNodes =
     filter (\<lambda>repo. \<not> is_hidden exclude_repo (repo_name repo)) (presort repoNodes)"

subsection \<open>Flattening and aggregation (lines 114 to 143)\<close>

text \<open>
  \<open>.filter((node) => node.languages.edges.length > 0)
   .reduce((acc, curr) => curr.languages.edges.concat(acc), [])\<close>
\<close>

definition flatten_edges :: "repo list \<Rightarrow> edge list" where
  "flatten_edges nodes =
     foldl (\<lambda>acc curr. repo_edges curr @ acc) []
       (filter (\<lambda>node. 0 < length (repo_edges node)) nodes)"

definition normalizedName :: "edge \<Rightarrow> string" where
  "normalizedName prev =
     (if node_name (edge_node prev) = ''Jupyter Notebook'' then ''Python''
      else node_name (edge_node prev))"

definition normalizedColor :: "edge \<Rightarrow> string" where
  "normalizedColor prev =
     (if normalizedName prev = ''Python'' then ''#3572A5'' else node_color (edge_node prev))"

text \<open>
  One call of the reducer. The state is the accumulator object together with the
  variable \<open>repoCount\<close> that the closure mutates. \<open>acc[normalizedName]\<close> is truthy
  for an own entry and for an inherited property; in the latter case
  \<open>acc[normalizedName].size\<close> is \<open>undefined\<close> and the sum is NaN.
\<close>

definition reducer :: "top_langs \<times> nat \<Rightarrow> edge \<Rightarrow> top_langs \<times> nat" where
  "reducer state prev =
     (let acc = fst state;
          repoCount = snd state;
          langSize =
            (case js_get acc (normalizedName prev) of
               Own e \<Rightarrow> js_add (Num (real (edge_size prev))) (lang_size e)
             | Inherited \<Rightarrow> NaN
             | Undefined \<Rightarrow> Num (real (edge_size prev)));
          repoCount' =
            (case js_get acc (normalizedName prev) of
               Own e \<Rightarrow> repoCount + 1
             | Inherited \<Rightarrow> repoCount + 1
             | Undefined \<Rightarrow> 1)
      in (obj_define (normalizedName prev)
            \<lparr>lang_name = normalizedName prev, lang_color = normalizedColor prev,
             lang_size = langSize, lang_count = repoCount'\<rparr> acc,
          repoCount'))"

definition aggregate_state :: "edge list \<Rightarrow> top_langs \<times> nat" where
  "aggregate_state edges = foldl reducer ([], 0) edges"

definition aggregate :: "edge list \<Rightarrow> top_langs" where
  "aggregate edges = fst (aggregate_state edges)"

subsection \<open>Weighting (lines 145 to 150)\<close>

definition weigh :: "real \<Rightarrow> real \<Rightarrow> lang \<Rightarrow> lang" where
  "weigh size_weight count_weight e =
     e\<lparr>lang_size :=
         js_mul (Math_pow (lang_size e) size_weight)
                (Math_pow (Num (real (lang_count e))) count_weight)\<rparr>"

text \<open>
  \<open>Object.keys(repoNodes).forEach\<close> rewrites the \<open>size\<close> of the entry under every
  own key; the entries are distinct objects, one per key.
\<close>

definition weighting :: "real \<Rightarrow> real \<Rightarrow> top_langs \<Rightarrow> top_langs" where
  "weighting size_weight count_weight repoNodes =
     map (\<lambda>(nm, e). (nm, weigh size_weight count_weight e)) repoNodes"

subsection \<open>Ranking (lines 152 to 160)\<close>

text \<open>
  \<open>repoNodes[key].size\<close> for the comparator; the keys it is called on are own keys, the
  other branch is never taken.
\<close>

definition size_at :: "top_langs \<Rightarrow> string \<Rightarrow> jsnum" where
  "size_at repoNodes key = (case map_of repoNodes key of Some e \<Rightarrow> lang_size e | None \<Rightarrow> NaN)"

definition lang_cmp :: "top_langs \<Rightarrow> string \<Rightarrow> string \<Rightarrow> jsnum" where
  "lang_cmp repoNodes a b = js_sub (size_at repoNodes b) (size_at repoNodes a)"

text \<open>
  The reducer \<open>(result, key) => { result[key] = repoNodes[key]; return result; }\<close>.
  \<open>repoNodes[key]\<close> is an own entry for every key the loop visits.
\<close>

definition rank_step :: "top_langs \<Rightarrow> top_langs \<Rightarrow> string \<Rightarrow> top_langs" where
  "rank_step repoNodes result key =
     (case map_of repoNodes key of Some e \<Rightarrow> obj_assign key e result | None \<Rightarrow> result)"

definition topLangs :: "top_langs \<Rightarrow> top_langs" where
  "topLangs repoNodes =
     foldl (rank_step repoNodes) [] (js_sort (lang_cmp repoNodes) (Object_keys repoNodes))"

text \<open>The pipeline from the repository nodes to the returned object.\<close>

definition top_languages :: "repo list \<Rightarrow> string list \<Rightarrow> real \<Rightarrow> real \<Rightarrow> top_langs" where
  "top_languages repoNodes exclude_repo size_weight count_weight =
     topLangs (weighting size_weight count_weight
       (aggregate (flatten_edges (visible_repos exclude_repo repoNodes))))"

subsection \<open>The asynchronous function (lines 67 to 161)\<close>

text \<open>
  The collaborators of \<open>../common\<close> are parameters: \<open>retryer\<close> maps the login to the
  response it resolves with or to the error it rejects with, \<open>wrapTextMultiline\<close> is
  the text wrapper. The two error codes of \<open>CustomError\<close> are symbolic; a third kind
  carries \<open>res.statusText\<close>. The \<open>world\<close> counts the calls of the retryer and keeps
  what \<open>logger.error\<close> was given.
\<close>

record gql_error =
  error_type :: "string option"
  error_message :: "string option"

record response =
  res_errors :: "gql_error list option"
  res_statusText :: string
  res_nodes :: "repo list option"

datatype error_kind = USER_NOT_FOUND | GRAPHQL_ERROR | StatusText string

datatype error =
    MissingParamError "string list"
  | CustomError "string option" error_kind
  | TypeError

record world =
  retryer_calls :: nat
  logged :: "gql_error list list"

definition fetchTopLanguages ::
  "(string \<Rightarrow> error + response) \<Rightarrow> (string \<Rightarrow> nat \<Rightarrow> nat \<Rightarrow> string list) \<Rightarrow>
   string option \<Rightarrow> string list option \<Rightarrow> real option \<Rightarrow> real option \<Rightarrow>
   world \<Rightarrow> (error + top_langs) \<times> world" where
  "fetchTopLanguages retryer wrapTextMultiline username exclude_repo_arg size_weight_arg
     count_weight_arg w =
     (let exclude_repo = (case exclude_repo_arg of None \<Rightarrow> [] | Some xs \<Rightarrow> xs);
          size_weight = (case size_weight_arg of None \<Rightarrow> 1 | Some x \<Rightarrow> x);
          count_weight = (case count_weight_arg of None \<Rightarrow> 0 | Some x \<Rightarrow> x)
      in case username of
           None \<Rightarrow> (Inl (MissingParamError [''username'']), w)
         | Some login \<Rightarrow>
             if login = [] then (Inl (MissingParamError [''username'']), w)
             else
               (let w1 = w\<lparr>retryer_calls := retryer_calls w + 1\<rparr>
                in case retryer login of
                     Inl e \<Rightarrow> (Inl e, w1)
                   | Inr res \<Rightarrow>
                       (case res_errors res of
                          Some errors \<Rightarrow>
                            (let w2 = w1\<lparr>logged := logged w1 @ [errors]\<rparr>
                             in case errors of
                                  [] \<Rightarrow> (Inl TypeError, w2)
                                | first # _ \<Rightarrow>
                                    if error_type first = Some ''NOT_FOUND'' then
                                      (Inl (CustomError
                                              (case error_message first of
                                                 None \<Rightarrow> Some ''Could not fetch user.''
                                               | Some m \<Rightarrow>
                                                   if m = [] then Some ''Could not fetch user.''
                                                   else Some m)
                                              USER_NOT_FOUND), w2)
                                    else
                                      (case error_message first of
                                         None \<Rightarrow>
                                           (Inl (CustomError
                                                   (Some ''Something went wrong while trying to retrieve the language data using the GraphQL API.'')
                                                   GRAPHQL_ERROR), w2)
                                       | Some m \<Rightarrow>
                                           if m = [] then
                                             (Inl (CustomError
                                                   (Some ''Something went wrong while trying to retrieve the language data using the GraphQL API.'')
                                                   GRAPHQL_ERROR), w2)
                                           else
                                             (Inl (CustomError
                                                     (case wrapTextMultiline m 90 1 of
                                                        [] \<Rightarrow> None
                                                      | line # _ \<Rightarrow> Some line)
                                                     (StatusText (res_statusText res))), w2)))
                        | None \<Rightarrow>
                            (case res_nodes res of
                               None \<Rightarrow> (Inl TypeError, w1)
                             | Some repoNodes \<Rightarrow>
                                 (Inr (top_languages repoNodes exclude_repo size_weight
                                         count_weight), w1)))))"

subsection \<open>Notions used in the statements\<close>

text \<open>The sum of the sizes of the edges whose normalised name is \<open>k\<close>.\<close>

definition size_sum :: "string \<Rightarrow> edge list \<Rightarrow> nat" where
  "size_sum k es = sum_list (map edge_size (filter (\<lambda>e. normalizedName e = k) es))"

text \<open>
  A name is ordinary when a plain object treats it as a plain string key: it is not an
  array index and not a name inherited from \<open>Object.prototype\<close>.
\<close>

definition ordinary_name :: "string \<Rightarrow> bool" where
  "ordinary_name k = (\<not> is_array_index k \<and> k \<notin> set object_prototype_keys)"

text \<open>
  The result is in descending order when no entry is followed by one of a larger size;
  \<open>entries_of_size v\<close> selects the entries of size \<open>v\<close>, in their order.
\<close>

definition descending :: "top_langs \<Rightarrow> bool" where
  "descending out = sorted_wrt (\<lambda>a b. js_le (lang_size (snd b)) (lang_size (snd a))) out"

definition entries_of_size :: "jsnum \<Rightarrow> top_langs \<Rightarrow> top_langs" where
  "entries_of_size v out = filter (\<lambda>p. lang_size (snd p) = v) out"



text \<open>Inputs for the concrete instances: an edge, a repository without a size, a response,
  a retryer that resolves with a given response.\<close>

definition mk_edge :: "nat \<Rightarrow> string \<Rightarrow> string \<Rightarrow> edge" where
  "mk_edge n nm c = \<lparr>edge_size = n, edge_node = \<lparr>node_color = c, node_name = nm\<rparr>\<rparr>"

definition mk_repo :: "string \<Rightarrow> edge list \<Rightarrow> repo" where
  "mk_repo nm es = \<lparr>repo_name = nm, repo_size = None, repo_edges = es\<rparr>"

definition ok_response :: "repo list \<Rightarrow> response" where
  "ok_response nodes = \<lparr>res_errors = None, res_statusText = ''OK'', res_nodes = Some nodes\<rparr>"

definition error_response :: "gql_error list \<Rightarrow> response" where
  "error_response errs = \<lparr>res_errors = Some errs, res_statusText = ''OK'', res_nodes = None\<rparr>"

definition constant_retryer :: "response \<Rightarrow> string \<Rightarrow> error + response" where
  "constant_retryer res login = Inr res"

definition no_wrap :: "string \<Rightarrow> nat \<Rightarrow> nat \<Rightarrow> string list" where
  "no_wrap m width lines = [m]"

definition world0 :: world where
  "world0 = \<lparr>retryer_calls = 0, logged = []\<rparr>"

section \<open>Properties\<close>

subsection \<open>Rounding to binary64\<close>


lemma round_half_even_of_int: "round_half_even (of_int n) = n"
  by (simp add: round_half_even_def)


lemma quantum_pos: "0 < quantum x"
  by (simp add: quantum_def)


lemma floor_log2_bounds:
  assumes "0 < x"
  shows "2 powi \<lfloor>log 2 x\<rfloor> \<le> x \<and> x < 2 powi (\<lfloor>log 2 x\<rfloor> + 1)"
proof -
  have "2 powr real_of_int \<lfloor>log 2 x\<rfloor> \<le> x \<and> x < 2 powr (real_of_int \<lfloor>log 2 x\<rfloor> + 1)"
    using floor_log_eq_powr_iff[of x 2 "\<lfloor>log 2 x\<rfloor>"] assms by simp
  moreover have "(2::real) powr real_of_int \<lfloor>log 2 x\<rfloor> = 2 powi \<lfloor>log 2 x\<rfloor>"
    by (rule powr_real_of_int') simp_all
  moreover have "(2::real) powr (real_of_int \<lfloor>log 2 x\<rfloor> + 1) = 2 powi (\<lfloor>log 2 x\<rfloor> + 1)"
    using powr_real_of_int'[of 2 "\<lfloor>log 2 x\<rfloor> + 1"] by simp
  ultimately show ?thesis by simp
qed


lemma binade_lower: "0 < x \<Longrightarrow> - 1022 < binade x \<Longrightarrow> 2 powi binade x \<le> x"
proof -
  assume x: "0 < x" and b: "- 1022 < binade x"
  then have "binade x = \<lfloor>log 2 x\<rfloor>" by (simp add: binade_def max_def split: if_splits)
  then show ?thesis using floor_log2_bounds[OF x] by simp
qed






lemma nearest_double_0: "nearest_double 0 = 0"
  by (simp add: nearest_double_def round_half_even_def)





lemma to_double_not_NaN: "to_double x \<noteq> NaN"
  by (simp add: to_double_def)

lemma to_double_0: "to_double 0 = Num 0"
  by (simp add: to_double_def nearest_double_0)



lemma nearest_double_exact:
  assumes "x / quantum x = of_int m"
  shows "nearest_double x = x"
proof -
  have "nearest_double x = of_int m * quantum x"
    by (simp add: nearest_double_def assms round_half_even_of_int)
  also have "\<dots> = x" using assms quantum_pos[of x] by (simp add: field_simps)
  finally show ?thesis .
qed



lemma to_double_exact:
  assumes "x / quantum x = of_int m" and "\<bar>x\<bar> < 2 ^ 1024"
  shows "to_double x = Num x"
proof -
  have "nearest_double x = x" using assms(1) by (rule nearest_double_exact)
  moreover have "\<not> 2 ^ 1024 \<le> x" and "\<not> x \<le> - (2 ^ 1024)" using assms(2) by auto
  ultimately show ?thesis by (simp add: to_double_def)
qed

lemma to_double_nat:
  assumes "n \<le> 2 ^ 53"
  shows "to_double (real n) = Num (real n)"
proof (cases "n = 0")
  case True
  then show ?thesis by (simp add: to_double_0)
next
  case False
  let ?x = "real n"
  have x1: "1 \<le> ?x" using False by simp
  then have x: "0 < ?x" by simp
  have le: "?x \<le> 2 ^ 53" using assms by (metis of_nat_le_iff of_nat_numeral of_nat_power)
  have "0 \<le> log 2 ?x" using x1 by simp
  then have f: "0 \<le> \<lfloor>log 2 ?x\<rfloor>" by simp
  have a: "\<bar>?x\<bar> = ?x" by simp
  have "- 1022 \<le> \<lfloor>log 2 ?x\<rfloor>" using f by linarith
  then have "max \<lfloor>log 2 ?x\<rfloor> (- 1022) = \<lfloor>log 2 ?x\<rfloor>" by (rule max_absorb1)
  then have b: "binade ?x = \<lfloor>log 2 ?x\<rfloor>" unfolding binade_def a .
  then have b0: "0 \<le> binade ?x" using f by simp
  have lo: "2 powi binade ?x \<le> ?x" using x b0 by (intro binade_lower) simp_all
  have b53: "binade ?x \<le> 53"
  proof (rule ccontr)
    assume "\<not> binade ?x \<le> 53"
    then have "(53::int) < binade ?x" by simp
    then have "(2::real) powi 53 < 2 powi binade ?x"
      by (intro power_int_strict_increasing) simp_all
    then show False using lo le by simp
  qed
  have small: "\<bar>?x\<bar> < 2 ^ 1024"
  proof -
    have "(2::real) ^ 53 < 2 ^ 1024" by (intro power_strict_increasing) simp_all
    then show ?thesis using le x by linarith
  qed
  show ?thesis
  proof (cases "binade ?x \<le> 52")
    case True
    let ?k = "nat (52 - binade ?x)"
    have "binade ?x - 52 = - int ?k" using True by simp
    then have "quantum ?x = 2 powi (- int ?k)" by (simp add: quantum_def)
    then have q: "quantum ?x = inverse (2 ^ ?k)" by (simp only: power_int_minus power_int_of_nat)
    have "?x / quantum ?x = ?x * 2 ^ ?k"
      by (simp only: q divide_inverse inverse_inverse_eq)
    also have "\<dots> = of_int (int n * 2 ^ ?k)"
      by (simp only: of_int_mult of_int_of_nat_eq of_int_power of_int_numeral)
    finally show ?thesis using small by (rule to_double_exact)
  next
    case False
    then have b: "binade ?x = 53" using b53 by simp
    then have "?x = 2 ^ 53" using lo le by simp
    moreover have "quantum ?x = 2" using b by (simp add: quantum_def)
    ultimately have "?x / quantum ?x = of_int (2 ^ 52)" by simp
    then show ?thesis using small by (rule to_double_exact)
  qed
qed

lemma to_double_numeral:
  "numeral w \<le> (9007199254740992::nat) \<Longrightarrow> to_double (numeral w) = Num (numeral w)"
  using to_double_nat[of "numeral w"] by simp

lemma to_double_1: "to_double 1 = Num 1"
  using to_double_nat[of 1] by simp


subsection \<open>Numbers\<close>













lemma js_positive_sub:
  "a \<noteq> NaN \<Longrightarrow> b \<noteq> NaN \<Longrightarrow> js_positive (js_sub b a) \<longleftrightarrow> \<not> js_le b a"
  by (cases a; cases b) auto

lemma js_le_trans: "js_le a b \<Longrightarrow> js_le b c \<Longrightarrow> js_le a c"
  by (cases a; cases b; cases c) auto

lemma js_le_total: "a \<noteq> NaN \<Longrightarrow> b \<noteq> NaN \<Longrightarrow> js_le a b \<or> js_le b a"
  by (cases a; cases b) auto

subsection \<open>The stable sort\<close>

lemma set_js_insert: "set (js_insert cmp x ys) = insert x (set ys)"
  by (induction ys) auto

lemma set_js_sort: "set (js_sort cmp xs) = set xs"
  by (induction xs) (auto simp: set_js_insert)

lemma distinct_js_insert: "distinct (js_insert cmp x ys) \<longleftrightarrow> x \<notin> set ys \<and> distinct ys"
  by (induction ys) (auto simp: set_js_insert)

lemma distinct_js_sort: "distinct (js_sort cmp xs) \<longleftrightarrow> distinct xs"
  by (induction xs) (auto simp: distinct_js_insert set_js_sort)

text \<open>Elements the comparator ties keep their order; a list of ties is left as it is.\<close>

lemma js_insert_tied: "\<forall>y\<in>set ys. \<not> js_positive (cmp x y) \<Longrightarrow> js_insert cmp x ys = x # ys"
  by (cases ys) auto

lemma js_sort_all_tied:
  "\<forall>a\<in>set xs. \<forall>b\<in>set xs. \<not> js_positive (cmp a b) \<Longrightarrow> js_sort cmp xs = xs"
  by (induction xs) (auto simp: js_insert_tied)

lemma filter_js_insert:
  "\<forall>y\<in>set ys. P x \<and> P y \<longrightarrow> \<not> js_positive (cmp x y) \<Longrightarrow>
   filter P (js_insert cmp x ys) = (if P x then x # filter P ys else filter P ys)"
  by (induction ys) auto

lemma filter_js_sort:
  "\<forall>a\<in>set xs. \<forall>b\<in>set xs. P a \<and> P b \<longrightarrow> \<not> js_positive (cmp a b) \<Longrightarrow>
   filter P (js_sort cmp xs) = filter P xs"
  by (induction xs) (auto simp: filter_js_insert set_js_sort)

text \<open>
  Where the comparator is consistent with a transitive relation \<open>R\<close> on the elements,
  the result is sorted by \<open>R\<close>.
\<close>

lemma sorted_js_insert:
  assumes "sorted_wrt R ys"
    and "\<forall>y\<in>set ys. js_positive (cmp x y) \<longrightarrow> R y x"
    and "\<forall>y\<in>set ys. \<not> js_positive (cmp x y) \<longrightarrow> R x y"
    and "\<forall>y\<in>set ys. \<forall>z\<in>set ys. R x y \<longrightarrow> R y z \<longrightarrow> R x z"
  shows "sorted_wrt R (js_insert cmp x ys)"
  using assms
proof (induction ys)
  case Nil
  then show ?case by simp
next
  case (Cons y ys)
  have tail: "sorted_wrt R ys" and head: "\<forall>z\<in>set ys. R y z"
    using Cons.prems(1) by simp_all
  show ?case
  proof (cases "js_positive (cmp x y)")
    case True
    have p2: "\<forall>y\<in>set ys. js_positive (cmp x y) \<longrightarrow> R y x"
      using Cons.prems(2) by (meson list.set_intros(2))
    have p3: "\<forall>y\<in>set ys. \<not> js_positive (cmp x y) \<longrightarrow> R x y"
      using Cons.prems(3) by (meson list.set_intros(2))
    have p4: "\<forall>y\<in>set ys. \<forall>z\<in>set ys. R x y \<longrightarrow> R y z \<longrightarrow> R x z"
      using Cons.prems(4) by (meson list.set_intros(2))
    have "sorted_wrt R (js_insert cmp x ys)"
      by (rule Cons.IH[OF tail p2 p3 p4])
    moreover have "R y x" using Cons.prems(2) True by (meson list.set_intros(1))
    ultimately show ?thesis using True head by (simp add: set_js_insert)
  next
    case False
    then have xy: "R x y" using Cons.prems(3) by (meson list.set_intros(1))
    have "\<forall>z\<in>set ys. R x z"
    proof
      fix z assume z: "z \<in> set ys"
      then have "R y z" using head by blast
      with xy z Cons.prems(4) show "R x z"
        by (meson list.set_intros)
    qed
    then show ?thesis using False xy tail head by simp
  qed
qed

lemma sorted_js_sort:
  assumes pos: "\<And>a b. a \<in> S \<Longrightarrow> b \<in> S \<Longrightarrow> js_positive (cmp a b) \<Longrightarrow> R b a"
    and tie: "\<And>a b. a \<in> S \<Longrightarrow> b \<in> S \<Longrightarrow> \<not> js_positive (cmp a b) \<Longrightarrow> R a b"
    and trans: "\<And>a b c. a \<in> S \<Longrightarrow> b \<in> S \<Longrightarrow> c \<in> S \<Longrightarrow> R a b \<Longrightarrow> R b c \<Longrightarrow> R a c"
  shows "set xs \<subseteq> S \<Longrightarrow> sorted_wrt R (js_sort cmp xs)"
proof (induction xs)
  case Nil
  then show ?case by simp
next
  case (Cons x xs)
  have x: "x \<in> S" and xs: "set xs \<subseteq> S"
    using Cons.prems by simp_all
  have s: "sorted_wrt R (js_sort cmp xs)"
    by (rule Cons.IH[OF xs])
  have e: "set (js_sort cmp xs) = set xs" by (rule set_js_sort)
  have "sorted_wrt R (js_insert cmp x (js_sort cmp xs))"
  proof (rule sorted_js_insert[OF s])
    show "\<forall>y\<in>set (js_sort cmp xs). js_positive (cmp x y) \<longrightarrow> R y x"
      unfolding e using pos x xs by blast
    show "\<forall>y\<in>set (js_sort cmp xs). \<not> js_positive (cmp x y) \<longrightarrow> R x y"
      unfolding e using tie x xs by blast
    show "\<forall>y\<in>set (js_sort cmp xs). \<forall>z\<in>set (js_sort cmp xs). R x y \<longrightarrow> R y z \<longrightarrow> R x z"
      unfolding e using trans x xs by blast
  qed
  then show ?case by simp
qed

subsection \<open>Own properties of plain objects\<close>

lemma map_of_insert_index:
  "map_of (insert_index k v obj) k' = (if k' = k then Some v else map_of obj k')"
  by (induction obj) auto

lemma map_of_replace:
  "map_of (map (\<lambda>(k', v'). if k' = k then (k', v) else (k', v')) obj) k' =
     (if k' = k then (if k \<in> fst ` set obj then Some v else None) else map_of obj k')"
  by (induction obj) force+

lemma map_of_obj_define:
  "map_of (obj_define k v obj) k' = (if k' = k then Some v else map_of obj k')"
proof (cases "k \<in> fst ` set obj")
  case True
  then show ?thesis by (simp add: obj_define_def map_of_replace)
next
  case False
  then have "map_of obj k = None" by (simp add: map_of_eq_None_iff)
  then show ?thesis using False
    by (auto simp: obj_define_def map_of_insert_index map_add_def split: option.splits)
qed

lemma keys_insert_index: "fst ` set (insert_index k v obj) = insert k (fst ` set obj)"
proof (induction obj)
  case Nil
  show ?case by simp
next
  case (Cons p obj)
  obtain k' v' where p: "p = (k', v')" by (cases p)
  show ?case
  proof (cases "is_array_index k' \<and> array_index_of k' < array_index_of k")
    case True
    then have "insert_index k v (p # obj) = (k', v') # insert_index k v obj"
      by (simp add: p)
    then show ?thesis using Cons.IH by (simp add: p insert_commute)
  next
    case False
    then have "insert_index k v (p # obj) = (k, v) # (k', v') # obj"
      by (auto simp: p)
    then show ?thesis by (simp add: p)
  qed
qed

lemma keys_replace:
  "map fst (map (\<lambda>(k', v'). if k' = k then (k', v) else (k', v')) obj) = map fst obj"
  by (induction obj) auto

lemma keys_obj_define: "fst ` set (obj_define k v obj) = insert k (fst ` set obj)"
proof (cases "k \<in> fst ` set obj")
  case True
  have "fst ` set (obj_define k v obj) = set (map fst (obj_define k v obj))" by simp
  also have "\<dots> = set (map fst obj)" using True by (simp only: obj_define_def if_True keys_replace)
  finally show ?thesis using True by auto
next
  case False
  then show ?thesis by (auto simp: obj_define_def keys_insert_index)
qed

lemma distinct_insert_index:
  "k \<notin> fst ` set obj \<Longrightarrow> distinct (map fst obj) \<Longrightarrow> distinct (map fst (insert_index k v obj))"
proof (induction obj)
  case Nil
  then show ?case by simp
next
  case (Cons p obj)
  obtain k' v' where p: "p = (k', v')" by (cases p)
  have "fst ` set (insert_index k v obj) = insert k (fst ` set obj)" by (rule keys_insert_index)
  then show ?case using Cons p by auto
qed

lemma distinct_obj_define:
  "distinct (map fst obj) \<Longrightarrow> distinct (map fst (obj_define k v obj))"
proof (cases "k \<in> fst ` set obj")
  case True
  assume "distinct (map fst obj)"
  then show ?thesis using True by (simp only: obj_define_def if_True keys_replace)
next
  case False
  assume "distinct (map fst obj)"
  then show ?thesis using False by (auto simp: obj_define_def distinct_insert_index)
qed

lemma keys_obj_define_old:
  "k \<in> fst ` set obj \<Longrightarrow> map fst (obj_define k v obj) = map fst obj"
  by (simp only: obj_define_def if_True keys_replace)

lemma keys_obj_define_new:
  "k \<notin> fst ` set obj \<Longrightarrow> \<not> is_array_index k \<Longrightarrow> obj_define k v obj = obj @ [(k, v)]"
  by (simp add: obj_define_def)

subsection \<open>The aggregation fold\<close>

lemma aggregate_state_Nil: "aggregate_state [] = ([], 0)"
  by (simp add: aggregate_state_def)

lemma aggregate_state_snoc: "aggregate_state (es @ [e]) = reducer (aggregate_state es) e"
  by (simp add: aggregate_state_def)

lemma fst_aggregate_state: "fst (aggregate_state es) = aggregate es"
  by (simp add: aggregate_def)

lemma aggregate_snoc:
  "aggregate (es @ [e]) = fst (reducer (aggregate_state es) e)"
  by (simp add: aggregate_def aggregate_state_snoc)

lemma fst_reducer:
  "fst (reducer s e) =
     obj_define (normalizedName e)
       \<lparr>lang_name = normalizedName e, lang_color = normalizedColor e,
        lang_size = (case js_get (fst s) (normalizedName e) of
                       Own en \<Rightarrow> js_add (Num (real (edge_size e))) (lang_size en)
                     | Inherited \<Rightarrow> NaN
                     | Undefined \<Rightarrow> Num (real (edge_size e))),
        lang_count = snd (reducer s e)\<rparr> (fst s)"
  by (simp add: reducer_def Let_def)

lemma snd_reducer:
  "snd (reducer s e) =
     (case js_get (fst s) (normalizedName e) of
        Own en \<Rightarrow> snd s + 1 | Inherited \<Rightarrow> snd s + 1 | Undefined \<Rightarrow> 1)"
  by (simp add: reducer_def Let_def)

lemma snd_reducer_pos: "1 \<le> snd (reducer s e)"
  by (simp add: snd_reducer split: js_value.splits)

lemma map_of_reducer_other:
  "k \<noteq> normalizedName e \<Longrightarrow> map_of (fst (reducer s e)) k = map_of (fst s) k"
  by (simp add: fst_reducer map_of_obj_define)

lemma map_of_reducer_same:
  "map_of (fst (reducer s e)) (normalizedName e) =
     Some \<lparr>lang_name = normalizedName e, lang_color = normalizedColor e,
        lang_size = (case js_get (fst s) (normalizedName e) of
                       Own en \<Rightarrow> js_add (Num (real (edge_size e))) (lang_size en)
                     | Inherited \<Rightarrow> NaN
                     | Undefined \<Rightarrow> Num (real (edge_size e))),
        lang_count = snd (reducer s e)\<rparr>"
  by (simp add: fst_reducer map_of_obj_define)

lemma keys_aggregate: "fst ` set (aggregate es) = normalizedName ` set es"
proof (induction es rule: rev_induct)
  case Nil
  show ?case by (simp add: aggregate_def aggregate_state_Nil)
next
  case (snoc e es)
  have "fst ` set (aggregate (es @ [e])) = insert (normalizedName e) (fst ` set (aggregate es))"
    by (simp add: aggregate_snoc fst_reducer keys_obj_define fst_aggregate_state)
  then show ?case using snoc by auto
qed

lemma distinct_aggregate: "distinct (map fst (aggregate es))"
proof (induction es rule: rev_induct)
  case Nil
  show ?case by (simp add: aggregate_def aggregate_state_Nil)
next
  case (snoc e es)
  then show ?case
    by (simp only: aggregate_snoc fst_reducer distinct_obj_define fst_aggregate_state)
qed

lemma aggregate_entry:
  "map_of (aggregate es) k = Some en \<Longrightarrow>
   lang_name en = k \<and> (k = ''Python'' \<longrightarrow> lang_color en = ''#3572A5'') \<and> 1 \<le> lang_count en"
proof (induction es arbitrary: en rule: rev_induct)
  case Nil
  then show ?case by (simp add: aggregate_def aggregate_state_Nil)
next
  case (snoc e es)
  show ?case
  proof (cases "k = normalizedName e")
    case True
    then show ?thesis
      using snoc.prems snd_reducer_pos[of "aggregate_state es" e]
      by (auto simp: aggregate_snoc map_of_reducer_same normalizedColor_def)
  next
    case False
    then have "map_of (aggregate es) k = Some en"
      using snoc.prems by (simp add: aggregate_snoc map_of_reducer_other fst_aggregate_state)
    then show ?thesis by (rule snoc.IH)
  qed
qed

lemma size_sum_snoc:
  "size_sum k (es @ [e]) = size_sum k es + (if normalizedName e = k then edge_size e else 0)"
  by (simp add: size_sum_def)

lemma js_get_own: "map_of obj k = Some v \<Longrightarrow> js_get obj k = Own v"
  by (simp add: js_get_def)

lemma js_get_undefined:
  "map_of obj k = None \<Longrightarrow> k \<notin> set object_prototype_keys \<Longrightarrow> js_get obj k = Undefined"
  by (simp add: js_get_def)

lemma size_sum_absent: "k \<notin> normalizedName ` set es \<Longrightarrow> size_sum k es = 0"
  by (induction es) (auto simp: size_sum_def)

lemma aggregate_size:
  "k \<notin> set object_prototype_keys \<Longrightarrow> map_of (aggregate es) k = Some en \<Longrightarrow>
   lang_size en = Num (real (size_sum k es))"
proof (induction es arbitrary: en rule: rev_induct)
  case Nil
  then show ?case by (simp add: aggregate_def aggregate_state_Nil)
next
  case (snoc e es)
  show ?case
  proof (cases "k = normalizedName e")
    case True
    show ?thesis
    proof (cases "map_of (aggregate es) k")
      case None
      then have "k \<notin> fst ` set (aggregate es)" by (simp add: map_of_eq_None_iff)
      then have z: "size_sum k es = 0" by (simp add: keys_aggregate size_sum_absent)
      have "js_get (fst (aggregate_state es)) (normalizedName e) = Undefined"
        using None True snoc.prems(1) by (simp add: js_get_undefined fst_aggregate_state)
      then show ?thesis
        using snoc.prems(2) True z
        by (auto simp: aggregate_snoc map_of_reducer_same size_sum_snoc)
    next
      case (Some old)
      then have o: "lang_size old = Num (real (size_sum k es))"
        using snoc.IH snoc.prems(1) by simp
      have "js_get (fst (aggregate_state es)) (normalizedName e) = Own old"
        using Some True by (simp add: js_get_own fst_aggregate_state)
      then show ?thesis
        using snoc.prems(2) True o
        by (auto simp: aggregate_snoc map_of_reducer_same size_sum_snoc)
    qed
  next
    case False
    then have "map_of (aggregate es) k = Some en"
      using snoc.prems by (simp add: aggregate_snoc map_of_reducer_other fst_aggregate_state)
    then have "lang_size en = Num (real (size_sum k es))"
      using snoc.IH snoc.prems(1) by simp
    then show ?thesis using False by (simp add: size_sum_snoc)
  qed
qed

lemma aggregate_count_last:
  "normalizedName e = k \<Longrightarrow> k \<notin> normalizedName ` set post \<Longrightarrow>
   map_of (aggregate (pre @ e # post)) k =
     map_of (aggregate (pre @ [e])) k"
proof (induction post rule: rev_induct)
  case Nil
  show ?case by simp
next
  case (snoc x post)
  have "pre @ e # post @ [x] = (pre @ e # post) @ [x]" by simp
  then have "map_of (aggregate (pre @ e # post @ [x])) k = map_of (aggregate (pre @ e # post)) k"
    using snoc.prems
    by (simp only: aggregate_snoc) (simp add: map_of_reducer_other fst_aggregate_state)
  then show ?case using snoc by simp
qed

lemma keys_order_aggregate:
  "\<forall>e\<in>set es. \<not> is_array_index (normalizedName e) \<Longrightarrow>
   map fst (aggregate es) = rev (remdups (rev (map normalizedName es)))"
proof (induction es rule: rev_induct)
  case Nil
  show ?case by (simp add: aggregate_def aggregate_state_Nil)
next
  case (snoc e es)
  then have IH: "map fst (aggregate es) = rev (remdups (rev (map normalizedName es)))"
    by simp
  have ni: "\<not> is_array_index (normalizedName e)" using snoc.prems by simp
  show ?case
  proof (cases "normalizedName e \<in> normalizedName ` set es")
    case True
    then have "normalizedName e \<in> fst ` set (fst (aggregate_state es))"
      by (simp add: keys_aggregate[symmetric] fst_aggregate_state)
    then have "map fst (aggregate (es @ [e])) = map fst (aggregate es)"
      by (simp only: aggregate_snoc fst_reducer keys_obj_define_old fst_aggregate_state)
    then show ?thesis using True IH by simp
  next
    case False
    then have "normalizedName e \<notin> fst ` set (fst (aggregate_state es))"
      by (simp add: keys_aggregate[symmetric] fst_aggregate_state)
    then have "map fst (aggregate (es @ [e])) = map fst (aggregate es) @ [normalizedName e]"
      using ni by (simp add: aggregate_snoc fst_reducer keys_obj_define_new fst_aggregate_state)
    then show ?thesis using False IH by simp
  qed
qed

subsection \<open>Weighting and ranking\<close>

lemma map_of_weighting:
  "map_of (weighting sw cw obj) k = map_option (weigh sw cw) (map_of obj k)"
  by (induction obj) (auto simp: weighting_def)

lemma keys_weighting: "map fst (weighting sw cw obj) = map fst obj"
  by (induction obj) (auto simp: weighting_def)

lemma weigh_fields:
  "lang_name (weigh sw cw e) = lang_name e"
  "lang_color (weigh sw cw e) = lang_color e"
  "lang_count (weigh sw cw e) = lang_count e"
  by (simp_all add: weigh_def)


lemma topLangs_alt:
  "topLangs obj = foldl (rank_step obj) [] (js_sort (lang_cmp obj) (map fst obj))"
  by (simp add: topLangs_def Object_keys_def)

lemma map_of_rank_fold:
  "set ks \<subseteq> fst ` set obj \<Longrightarrow>
   map_of (foldl (rank_step obj) acc ks) k =
     (if k \<in> set ks \<and> k \<noteq> ''__proto__'' then map_of obj k else map_of acc k)"
proof (induction ks arbitrary: acc)
  case Nil
  show ?case by simp
next
  case (Cons x ks)
  then have "x \<in> fst ` set obj" by simp
  then obtain e where e: "map_of obj x = Some e"
    by (metis domD dom_map_of_conv_image_fst)
  have step: "rank_step obj acc x = obj_assign x e acc"
    by (simp add: rank_step_def e)
  have sub: "set ks \<subseteq> fst ` set obj" using Cons.prems by simp
  show ?case
    by (simp add: Cons.IH[OF sub] step obj_assign_def map_of_obj_define e)
qed

lemma rank_fold_append:
  "distinct ks \<Longrightarrow> set ks \<subseteq> fst ` set obj \<Longrightarrow> set ks \<inter> fst ` set acc = {} \<Longrightarrow>
   \<forall>k\<in>set ks. \<not> is_array_index k \<and> k \<noteq> ''__proto__'' \<Longrightarrow>
   foldl (rank_step obj) acc ks = acc @ map (\<lambda>k. (k, the (map_of obj k))) ks"
proof (induction ks arbitrary: acc)
  case Nil
  show ?case by simp
next
  case (Cons x ks)
  have "x \<in> fst ` set obj" using Cons.prems(2) by simp
  then obtain e where e: "map_of obj x = Some e"
    by (metis domD dom_map_of_conv_image_fst)
  have fresh: "x \<notin> fst ` set acc" using Cons.prems(3) by auto
  have ok: "\<not> is_array_index x" "x \<noteq> ''__proto__''" using Cons.prems(4) by simp_all
  have step: "rank_step obj acc x = acc @ [(x, e)]"
    using fresh ok by (simp add: rank_step_def e obj_assign_def obj_define_def)
  have "foldl (rank_step obj) (acc @ [(x, e)]) ks
        = (acc @ [(x, e)]) @ map (\<lambda>k. (k, the (map_of obj k))) ks"
  proof (rule Cons.IH)
    show "distinct ks" using Cons.prems(1) by simp
    show "set ks \<subseteq> fst ` set obj" using Cons.prems(2) by simp
    show "set ks \<inter> fst ` set (acc @ [(x, e)]) = {}"
      using Cons.prems(1,3) by auto
    show "\<forall>k\<in>set ks. \<not> is_array_index k \<and> k \<noteq> ''__proto__''"
      using Cons.prems(4) by simp
  qed
  then show ?case by (simp add: step e)
qed

lemma map_of_topLangs:
  "map_of (topLangs obj) k = (if k = ''__proto__'' then None else map_of obj k)"
proof -
  have "set (js_sort (lang_cmp obj) (map fst obj)) \<subseteq> fst ` set obj"
    by (simp add: set_js_sort)
  then have "map_of (topLangs obj) k =
     (if k \<in> fst ` set obj \<and> k \<noteq> ''__proto__'' then map_of obj k else None)"
    by (simp add: topLangs_alt map_of_rank_fold set_js_sort)
  moreover have "k \<notin> fst ` set obj \<Longrightarrow> map_of obj k = None"
    by (simp add: map_of_eq_None_iff)
  ultimately show ?thesis by auto
qed

lemma topLangs_sorted_keys:
  assumes "distinct (map fst obj)"
    and "\<forall>k\<in>fst ` set obj. \<not> is_array_index k \<and> k \<noteq> ''__proto__''"
  shows "topLangs obj =
     map (\<lambda>k. (k, the (map_of obj k))) (js_sort (lang_cmp obj) (map fst obj))"
proof -
  have "foldl (rank_step obj) [] (js_sort (lang_cmp obj) (map fst obj))
        = [] @ map (\<lambda>k. (k, the (map_of obj k))) (js_sort (lang_cmp obj) (map fst obj))"
  proof (rule rank_fold_append)
    show "distinct (js_sort (lang_cmp obj) (map fst obj))"
      using assms(1) by (simp add: distinct_js_sort)
    show "set (js_sort (lang_cmp obj) (map fst obj)) \<subseteq> fst ` set obj"
      by (simp add: set_js_sort)
    show "set (js_sort (lang_cmp obj) (map fst obj)) \<inter> fst ` set [] = {}"
      by simp
    show "\<forall>k\<in>set (js_sort (lang_cmp obj) (map fst obj)).
            \<not> is_array_index k \<and> k \<noteq> ''__proto__''"
      using assms(2) by (simp add: set_js_sort)
  qed
  then show ?thesis by (simp add: topLangs_alt)
qed

subsection \<open>Hiding and flattening\<close>

lemma foldl_concat_edges:
  "foldl (\<lambda>acc curr. f curr @ acc) a xs = concat (rev (map f xs)) @ a"
  by (induction xs arbitrary: a) auto

lemma concat_filter_nonempty:
  "concat (map f (filter (\<lambda>x. 0 < length (f x)) xs)) = concat (map f xs)"
  by (induction xs) auto

lemma flatten_edges_concat: "flatten_edges nodes = concat (rev (map repo_edges nodes))"
proof -
  have "flatten_edges nodes =
        concat (map repo_edges (filter (\<lambda>x. 0 < length (repo_edges x)) (rev nodes)))"
    by (simp add: flatten_edges_def foldl_concat_edges rev_map rev_filter)
  then show ?thesis by (simp only: concat_filter_nonempty rev_map)
qed

lemma set_flatten_edges: "set (flatten_edges nodes) = (\<Union>r\<in>set nodes. set (repo_edges r))"
  by (simp add: flatten_edges_concat)

lemma map_of_repoToHide:
  "map_of (repoToHide exclude_repo) nm =
     (if nm \<in> set exclude_repo \<and> nm \<noteq> ''__proto__'' then Some True else None)"
proof (induction exclude_repo rule: rev_induct)
  case Nil
  show ?case by (simp add: repoToHide_def)
next
  case (snoc x xs)
  have "repoToHide (xs @ [x]) = obj_assign x True (repoToHide xs)"
    by (simp add: repoToHide_def)
  then show ?case using snoc
    by (auto simp: obj_assign_def map_of_obj_define)
qed

lemma is_hidden_iff:
  "is_hidden exclude_repo nm \<longleftrightarrow> nm \<in> set exclude_repo \<or> nm \<in> set object_prototype_keys"
proof -
  have "''__proto__'' \<in> set object_prototype_keys"
    by (simp add: object_prototype_keys_def)
  then show ?thesis
    by (auto simp: is_hidden_def js_get_def map_of_repoToHide)
qed

lemma presort_no_sizes:
  "\<forall>r\<in>set repoNodes. repo_size r = None \<Longrightarrow> presort repoNodes = repoNodes"
  unfolding presort_def
  by (rule js_sort_all_tied) (simp add: repo_cmp_def repo_size_number_def)

lemma set_visible_repos:
  "set (visible_repos exclude_repo repoNodes) =
     {r \<in> set repoNodes. repo_name r \<notin> set exclude_repo \<and> repo_name r \<notin> set object_prototype_keys}"
  by (auto simp: visible_repos_def presort_def set_js_sort is_hidden_iff)

subsection \<open>Evaluation of the pipeline and of the weights\<close>

lemmas eval_defs =
  top_languages_def visible_repos_def presort_def repo_cmp_def repo_size_number_def
  is_hidden_iff object_prototype_keys_def flatten_edges_def aggregate_def
  aggregate_state_def reducer_def js_get_def normalizedName_def normalizedColor_def
  obj_define_def obj_assign_def is_array_index_def is_digit_def array_index_of_def
  digit_value_def weighting_def weigh_def topLangs_def rank_step_def Object_keys_def
  lang_cmp_def size_at_def mk_edge_def mk_repo_def Let_def

lemmas eval_numbers =
  Math_pow_def to_double_numeral to_double_1 to_double_0 signed_infinity_def

lemma map_of_top_languages:
  "map_of (top_languages repoNodes exclude_repo sw cw) k =
     (if k = ''__proto__'' then None
      else map_option (weigh sw cw)
             (map_of (aggregate (flatten_edges (visible_repos exclude_repo repoNodes))) k))"
  by (simp add: top_languages_def map_of_topLangs map_of_weighting)

subsection \<open>Entries of the aggregate\<close>

lemma normalizedName_not_jupyter: "normalizedName e \<noteq> ''Jupyter Notebook''"
  by (simp add: normalizedName_def)

lemma normalizedName_python_iff:
  "normalizedName e = ''Python'' \<longleftrightarrow>
     node_name (edge_node e) = ''Jupyter Notebook'' \<or> node_name (edge_node e) = ''Python''"
  by (simp add: normalizedName_def)

lemma python_ordinary: "''Python'' \<notin> set object_prototype_keys" "''Python'' \<noteq> ''__proto__''"
  by (simp_all add: object_prototype_keys_def)

lemma aggregate_present:
  "k \<in> normalizedName ` set es \<Longrightarrow> \<exists>en. map_of (aggregate es) k = Some en"
proof -
  assume "k \<in> normalizedName ` set es"
  then have "k \<in> fst ` set (aggregate es)" by (simp add: keys_aggregate)
  then have "map_of (aggregate es) k \<noteq> None" by (simp add: map_of_eq_None_iff)
  then show ?thesis by blast
qed

lemma aggregate_absent:
  "k \<notin> normalizedName ` set es \<Longrightarrow> map_of (aggregate es) k = None"
  by (simp add: map_of_eq_None_iff keys_aggregate)

lemma visible_edges_subset:
  "set (flatten_edges (visible_repos exclude_repo repoNodes))
     \<subseteq> (\<Union>r\<in>set repoNodes. set (repo_edges r))"
  by (auto simp: set_flatten_edges set_visible_repos)

subsection \<open>The ranked result\<close>

lemma rebuild_entries:
  "distinct (map fst obj) \<Longrightarrow> map (\<lambda>k. (k, the (map_of obj k))) (map fst obj) = obj"
proof -
  assume d: "distinct (map fst obj)"
  have "map (\<lambda>k. (k, the (map_of obj k))) (map fst obj) = map (\<lambda>p. p) obj"
    unfolding map_map
  proof (rule map_cong[OF refl])
    fix p assume "p \<in> set obj"
    then have "map_of obj (fst p) = Some (snd p)" using d by simp
    then show "((\<lambda>k. (k, the (map_of obj k))) \<circ> fst) p = p" by simp
  qed
  then show ?thesis by simp
qed

lemma topLangs_sorted:
  assumes d: "distinct (map fst w)"
    and ok: "\<forall>k\<in>fst ` set w. \<not> is_array_index k \<and> k \<noteq> ''__proto__''"
    and num: "\<forall>p\<in>set w. lang_size (snd p) \<noteq> NaN"
  shows "sorted_wrt (\<lambda>a b. js_le (lang_size (snd b)) (lang_size (snd a))) (topLangs w)"
proof -
  let ?S = "fst ` set w"
  let ?R = "\<lambda>a b. js_le (size_at w b) (size_at w a)"
  let ?g = "\<lambda>k. (k, the (map_of w k))"
  let ?ks = "js_sort (lang_cmp w) (map fst w)"
  have at: "\<And>k. k \<in> ?S \<Longrightarrow> size_at w k \<noteq> NaN"
    and eq: "\<And>k. k \<in> ?S \<Longrightarrow> lang_size (the (map_of w k)) = size_at w k"
  proof -
    fix k assume "k \<in> ?S"
    then obtain e where m: "(k, e) \<in> set w" by auto
    then have s: "map_of w k = Some e" using d by simp
    moreover have "lang_size e \<noteq> NaN" using num m by auto
    ultimately show "size_at w k \<noteq> NaN" by (simp add: size_at_def)
    show "lang_size (the (map_of w k)) = size_at w k" using s by (simp add: size_at_def)
  qed
  have "sorted_wrt ?R ?ks"
  proof (rule sorted_js_sort[where S = ?S])
    fix a b assume a: "a \<in> ?S" and b: "b \<in> ?S" and p: "js_positive (lang_cmp w a b)"
    have "js_positive (js_sub (size_at w b) (size_at w a))"
      using p by (simp add: lang_cmp_def)
    then have "\<not> js_le (size_at w b) (size_at w a)"
      using js_positive_sub[OF at[OF a] at[OF b]] by blast
    then show "js_le (size_at w a) (size_at w b)"
      using js_le_total[OF at[OF a] at[OF b]] by blast
  next
    fix a b assume a: "a \<in> ?S" and b: "b \<in> ?S" and p: "\<not> js_positive (lang_cmp w a b)"
    have "\<not> js_positive (js_sub (size_at w b) (size_at w a))"
      using p by (simp add: lang_cmp_def)
    then show "js_le (size_at w b) (size_at w a)"
      using js_positive_sub[OF at[OF a] at[OF b]] by blast
  next
    fix a b c
    assume "js_le (size_at w b) (size_at w a)" and "js_le (size_at w c) (size_at w b)"
    then show "js_le (size_at w c) (size_at w a)" by (metis js_le_trans)
  next
    show "set (map fst w) \<subseteq> ?S" by simp
  qed
  then have "sorted_wrt (\<lambda>a b. js_le (lang_size (snd (?g b))) (lang_size (snd (?g a)))) ?ks"
  proof (rule sorted_wrt_mono_rel[rotated])
    fix a b assume "a \<in> set ?ks" and "b \<in> set ?ks" and r: "js_le (size_at w b) (size_at w a)"
    then have "a \<in> ?S" and "b \<in> ?S" by (simp_all add: set_js_sort)
    then show "js_le (lang_size (snd (?g b))) (lang_size (snd (?g a)))"
      using r by (simp add: eq)
  qed
  then have "sorted_wrt (\<lambda>a b. js_le (lang_size (snd b)) (lang_size (snd a))) (map ?g ?ks)"
    by (simp add: sorted_wrt_map)
  then show ?thesis using topLangs_sorted_keys[OF d ok] by simp
qed

lemma topLangs_stable:
  assumes d: "distinct (map fst w)"
    and ok: "\<forall>k\<in>fst ` set w. \<not> is_array_index k \<and> k \<noteq> ''__proto__''"
  shows "filter (\<lambda>p. lang_size (snd p) = v) (topLangs w) = filter (\<lambda>p. lang_size (snd p) = v) w"
proof -
  let ?g = "\<lambda>k. (k, the (map_of w k))"
  let ?Q = "\<lambda>k. lang_size (the (map_of w k)) = v"
  let ?ks = "js_sort (lang_cmp w) (map fst w)"
  have at: "\<And>k. k \<in> fst ` set w \<Longrightarrow> size_at w k = lang_size (the (map_of w k))"
  proof -
    fix k assume "k \<in> fst ` set w"
    then obtain e where "(k, e) \<in> set w" by auto
    then have "map_of w k = Some e" using d by simp
    then show "size_at w k = lang_size (the (map_of w k))" by (simp add: size_at_def)
  qed
  have tied: "\<forall>a\<in>set (map fst w). \<forall>b\<in>set (map fst w).
                ?Q a \<and> ?Q b \<longrightarrow> \<not> js_positive (lang_cmp w a b)"
  proof (intro ballI impI)
    fix a b assume a: "a \<in> set (map fst w)" and b: "b \<in> set (map fst w)" and q: "?Q a \<and> ?Q b"
    have "size_at w a = v" and "size_at w b = v" using a b q at by simp_all
    then show "\<not> js_positive (lang_cmp w a b)"
      by (cases v) (simp_all add: lang_cmp_def)
  qed
  have "filter (\<lambda>p. lang_size (snd p) = v) (topLangs w)
        = filter (\<lambda>p. lang_size (snd p) = v) (map ?g ?ks)"
    using topLangs_sorted_keys[OF d ok] by simp
  also have "\<dots> = map ?g (filter ?Q ?ks)"
    by (simp add: filter_map comp_def)
  also have "\<dots> = map ?g (filter ?Q (map fst w))"
    using filter_js_sort[OF tied] by simp
  also have "\<dots> = filter (\<lambda>p. lang_size (snd p) = v) (map ?g (map fst w))"
    by (simp add: filter_map comp_def)
  also have "\<dots> = filter (\<lambda>p. lang_size (snd p) = v) w"
    using rebuild_entries[OF d] by simp
  finally show ?thesis .
qed

subsection \<open>What the result contains\<close>

text \<open>
  For a name that is not inherited from \<open>Object.prototype\<close>, the aggregate has an
  entry exactly when a repository that passed the filter has an edge of that normalised
  name, and the size of the entry is the sum of the sizes of these edges. An empty list
  of repositories, or one whose repositories are all excluded, gives the empty result.
\<close>

lemma aggregated_sizes_of_visible_repos:
  assumes "k \<notin> set object_prototype_keys"
  shows "map_of (aggregate (flatten_edges (visible_repos exclude_repo repoNodes))) k =
     (if k \<in> normalizedName ` (\<Union>r\<in>set (visible_repos exclude_repo repoNodes). set (repo_edges r))
      then Some \<lparr>lang_name = k,
                 lang_color = lang_color (the (map_of (aggregate (flatten_edges
                    (visible_repos exclude_repo repoNodes))) k)),
                 lang_size = Num (real (size_sum k (flatten_edges
                    (visible_repos exclude_repo repoNodes)))),
                 lang_count = lang_count (the (map_of (aggregate (flatten_edges
                    (visible_repos exclude_repo repoNodes))) k))\<rparr>
      else None)"
proof (cases "k \<in> normalizedName ` set (flatten_edges (visible_repos exclude_repo repoNodes))")
  case True
  then obtain en where en:
    "map_of (aggregate (flatten_edges (visible_repos exclude_repo repoNodes))) k = Some en"
    using aggregate_present by blast
  have "lang_size en = Num (real (size_sum k (flatten_edges
                    (visible_repos exclude_repo repoNodes))))"
    using assms en by (rule aggregate_size)
  moreover have "lang_name en = k" using aggregate_entry[OF en] by simp
  ultimately show ?thesis using True en by (simp add: set_flatten_edges)
next
  case False
  then show ?thesis by (simp add: aggregate_absent set_flatten_edges)
qed

lemma empty_repository_list: "top_languages [] exclude_repo sw cw = []"
  by (simp add: top_languages_def visible_repos_def presort_def flatten_edges_def
      aggregate_def aggregate_state_def weighting_def topLangs_def Object_keys_def)

lemma all_repositories_excluded:
  assumes "\<forall>r\<in>set repoNodes. repo_name r \<in> set exclude_repo"
  shows "top_languages repoNodes exclude_repo sw cw = []"
proof -
  have "set (visible_repos exclude_repo repoNodes) = {}"
    using assms by (auto simp: set_visible_repos)
  then have "visible_repos exclude_repo repoNodes = []" by simp
  then show ?thesis
    by (simp add: top_languages_def flatten_edges_def aggregate_def aggregate_state_def
        weighting_def topLangs_def Object_keys_def)
qed

subsection \<open>The shared counter\<close>

text \<open>
  The fold carries one counter for all languages. An edge whose normalised name has an
  entry increments it; an edge whose normalised name has no entry and is not inherited
  from \<open>Object.prototype\<close> resets it to 1; the entry of a name stores the value the
  counter had after the last edge of that name, and an edge leaves the entries of the
  other names as they are.
\<close>

lemma shared_counter:
  "(map_of (aggregate pre) (normalizedName e) \<noteq> None \<longrightarrow>
      snd (aggregate_state (pre @ [e])) = snd (aggregate_state pre) + 1)
   \<and> (map_of (aggregate pre) (normalizedName e) = None
        \<and> normalizedName e \<notin> set object_prototype_keys \<longrightarrow>
      snd (aggregate_state (pre @ [e])) = 1)
   \<and> (normalizedName e \<notin> normalizedName ` set post \<longrightarrow>
      (\<exists>en. map_of (aggregate (pre @ e # post)) (normalizedName e) = Some en
           \<and> lang_count en = snd (aggregate_state (pre @ [e]))))
   \<and> (k \<noteq> normalizedName e \<longrightarrow> map_of (aggregate (pre @ [e])) k = map_of (aggregate pre) k)"
proof -
  have a: "map_of (aggregate pre) (normalizedName e) \<noteq> None \<longrightarrow>
      snd (aggregate_state (pre @ [e])) = snd (aggregate_state pre) + 1"
    by (auto simp: aggregate_state_snoc snd_reducer fst_aggregate_state js_get_def)
  have b: "map_of (aggregate pre) (normalizedName e) = None
        \<and> normalizedName e \<notin> set object_prototype_keys \<longrightarrow>
      snd (aggregate_state (pre @ [e])) = 1"
    by (simp add: aggregate_state_snoc snd_reducer fst_aggregate_state js_get_def)
  have c: "normalizedName e \<notin> normalizedName ` set post \<longrightarrow>
      (\<exists>en. map_of (aggregate (pre @ e # post)) (normalizedName e) = Some en
           \<and> lang_count en = snd (aggregate_state (pre @ [e])))"
  proof
    assume "normalizedName e \<notin> normalizedName ` set post"
    then have "map_of (aggregate (pre @ e # post)) (normalizedName e)
               = map_of (aggregate (pre @ [e])) (normalizedName e)"
      using aggregate_count_last[of e "normalizedName e" post pre] by simp
    then show "\<exists>en. map_of (aggregate (pre @ e # post)) (normalizedName e) = Some en
           \<and> lang_count en = snd (aggregate_state (pre @ [e]))"
      by (simp add: aggregate_snoc map_of_reducer_same aggregate_state_snoc)
  qed
  have d: "k \<noteq> normalizedName e \<longrightarrow> map_of (aggregate (pre @ [e])) k = map_of (aggregate pre) k"
    by (simp add: aggregate_snoc map_of_reducer_other fst_aggregate_state)
  from a b c d show ?thesis by blast
qed

subsection \<open>The order of the result\<close>

text \<open>
  When no normalised language name of the input is an array index or inherited from
  \<open>Object.prototype\<close>, and no weighted size is NaN, the result is in descending order
  of the weighted size, entries of equal weighted size keep the order they have in the
  aggregate, and the order of the aggregate is the order in which the names first occur
  in the flattened edges.
\<close>

lemma ranked_descending:
  assumes "\<forall>r\<in>set repoNodes. \<forall>e\<in>set (repo_edges r). ordinary_name (normalizedName e)"
    and num: "\<forall>p\<in>set (weighting size_weight count_weight
                 (aggregate (flatten_edges (visible_repos exclude_repo repoNodes)))).
               lang_size (snd p) \<noteq> NaN"
  shows "descending (top_languages repoNodes exclude_repo size_weight count_weight)
       \<and> (\<forall>v. entries_of_size v
                 (top_languages repoNodes exclude_repo size_weight count_weight)
              = entries_of_size v
                 (weighting size_weight count_weight
                    (aggregate (flatten_edges (visible_repos exclude_repo repoNodes)))))
       \<and> map fst (aggregate (flatten_edges (visible_repos exclude_repo repoNodes)))
           = rev (remdups (rev (map normalizedName
               (flatten_edges (visible_repos exclude_repo repoNodes)))))"
proof -
  let ?es = "flatten_edges (visible_repos exclude_repo repoNodes)"
  let ?w = "weighting size_weight count_weight (aggregate ?es)"
  have names: "\<forall>e\<in>set ?es. ordinary_name (normalizedName e)"
    using assms(1) visible_edges_subset[of exclude_repo repoNodes] by blast
  have d: "distinct (map fst ?w)"
    by (simp add: keys_weighting distinct_aggregate)
  have keys: "fst ` set ?w = normalizedName ` set ?es"
    using keys_weighting[of size_weight count_weight "aggregate ?es"] keys_aggregate[of ?es]
    by (metis set_map)
  have "''__proto__'' \<in> set object_prototype_keys"
    by (simp add: object_prototype_keys_def)
  then have ok: "\<forall>k\<in>fst ` set ?w. \<not> is_array_index k \<and> k \<noteq> ''__proto__''"
    using names keys by (auto simp: ordinary_name_def)
  have a: "descending (top_languages repoNodes exclude_repo size_weight count_weight)"
    unfolding top_languages_def descending_def by (rule topLangs_sorted[OF d ok num])
  have b: "\<forall>v. entries_of_size v
                 (top_languages repoNodes exclude_repo size_weight count_weight)
              = entries_of_size v ?w"
    unfolding top_languages_def entries_of_size_def using topLangs_stable[OF d ok] by blast
  have c: "map fst (aggregate ?es) = rev (remdups (rev (map normalizedName ?es)))"
    using names by (intro keys_order_aggregate) (simp add: ordinary_name_def)
  from a b c show ?thesis by blast
qed

subsection \<open>Concrete runs\<close>


lemma flatten_scenario2:
  "flatten_edges (visible_repos []
      [mk_repo ''A'' [mk_edge 200 ''Jupyter Notebook'' ''#DA5B0B''],
       mk_repo ''B'' [mk_edge 100 ''Python'' ''#3572A5'']])
   = [mk_edge 100 ''Python'' ''#3572A5'', mk_edge 200 ''Jupyter Notebook'' ''#DA5B0B'']"
  by (simp add: visible_repos_def presort_def repo_cmp_def repo_size_number_def is_hidden_iff
      object_prototype_keys_def flatten_edges_def mk_repo_def)





section \<open>The claims\<close>

text \<open>
  Claim C1: the result holds exactly the normalised names of the edges of the
  repositories that are not in the exclusion list, each with the sum of the sizes of its
  edges. The code breaks this at a repository whose name is inherited from
  \<open>Object.prototype\<close>: with an empty exclusion list the repository
  \<open>constructor\<close> is dropped, and the result holds the 50 bytes of repository
  \<open>B\<close> instead of the 150 bytes of both. For the repositories that pass the
  filter the statement is \<open>aggregated_sizes_of_visible_repos\<close>.
\<close>

theorem inherited_name_repo_dropped:
  "fst (fetchTopLanguages
          (constant_retryer (ok_response
             [mk_repo ''constructor'' [mk_edge 100 ''JavaScript'' ''#f1e05a''],
              mk_repo ''B'' [mk_edge 50 ''JavaScript'' ''#f1e05a'']]))
          no_wrap (Some ''octocat'') (Some []) None None world0)
   = Inr [(''JavaScript'', \<lparr>lang_name = ''JavaScript'', lang_color = ''#f1e05a'',
                            lang_size = Num 50, lang_count = 1\<rparr>)]"
proof -
  have "top_languages
          [mk_repo ''constructor'' [mk_edge 100 ''JavaScript'' ''#f1e05a''],
           mk_repo ''B'' [mk_edge 50 ''JavaScript'' ''#f1e05a'']] [] 1 0
        = [(''JavaScript'', \<lparr>lang_name = ''JavaScript'', lang_color = ''#f1e05a'',
                            lang_size = Num 50, lang_count = 1\<rparr>)]"
    by (simp add: eval_defs eval_numbers)
  then show ?thesis
    by (simp add: fetchTopLanguages_def ok_response_def constant_retryer_def)
qed

text \<open>
  Claim C2: the counter is incremented by an edge that extends an entry and reset to 1
  by an edge that creates one. The code breaks this at a language whose name is inherited
  from \<open>Object.prototype\<close>: after an edge of JavaScript, an edge named
  \<open>constructor\<close> finds no entry and creates one, yet \<open>acc["constructor"]\<close> is the
  inherited function, which is truthy, so that the counter is incremented to 2 and the
  new entry has the size NaN and the count 2. For the other names the statement is
  \<open>shared_counter\<close>.
\<close>

theorem inherited_name_counter_not_reset:
  "map_of (aggregate [mk_edge 50 ''JavaScript'' ''#f1e05a'']) ''constructor'' = None
   \<and> map_of (aggregate [mk_edge 50 ''JavaScript'' ''#f1e05a'', mk_edge 10 ''constructor'' ''#000000''])
        ''constructor''
     = Some \<lparr>lang_name = ''constructor'', lang_color = ''#000000'', lang_size = NaN,
             lang_count = 2\<rparr>
   \<and> snd (aggregate_state [mk_edge 50 ''JavaScript'' ''#f1e05a'',
                            mk_edge 10 ''constructor'' ''#000000'']) = 2"
  by (simp add: eval_defs)

text \<open>
  Claim C3. An edge named \<open>Jupyter Notebook\<close> has the normalised name
  \<open>Python\<close>; when such an edge belongs to a repository that passed the filter, the
  aggregate has a \<open>Python\<close> entry whose size is the sum of the sizes of all edges
  named \<open>Jupyter Notebook\<close> or \<open>Python\<close>, and the result has a \<open>Python\<close>
  entry; the result never has a key \<open>Jupyter Notebook\<close>; and a \<open>Python\<close> entry
  of the result has the color \<open>#3572A5\<close>.
\<close>

theorem jupyter_counts_as_python:
  "(node_name (edge_node e) = ''Jupyter Notebook'' \<longrightarrow> normalizedName e = ''Python'')
   \<and> (e \<in> set (flatten_edges (visible_repos exclude_repo repoNodes))
        \<and> node_name (edge_node e) = ''Jupyter Notebook'' \<longrightarrow>
        (\<exists>en. map_of (aggregate (flatten_edges (visible_repos exclude_repo repoNodes))) ''Python''
                = Some en
            \<and> lang_size en =
                Num (real (sum_list (map edge_size
                  (filter (\<lambda>x. node_name (edge_node x) = ''Jupyter Notebook''
                             \<or> node_name (edge_node x) = ''Python'')
                     (flatten_edges (visible_repos exclude_repo repoNodes)))))))
        \<and> (\<exists>en. map_of (top_languages repoNodes exclude_repo size_weight count_weight) ''Python''
                = Some en))
   \<and> ''Jupyter Notebook'' \<notin> fst ` set (top_languages repoNodes exclude_repo size_weight count_weight)
   \<and> (\<forall>en. map_of (top_languages repoNodes exclude_repo size_weight count_weight) ''Python''
              = Some en \<longrightarrow>
            lang_name en = ''Python'' \<and> lang_color en = ''#3572A5'')"
proof -
  let ?es = "flatten_edges (visible_repos exclude_repo repoNodes)"
  let ?out = "top_languages repoNodes exclude_repo size_weight count_weight"
  have a: "node_name (edge_node e) = ''Jupyter Notebook'' \<longrightarrow> normalizedName e = ''Python''"
    by (simp add: normalizedName_def)
  have b: "e \<in> set ?es \<and> node_name (edge_node e) = ''Jupyter Notebook'' \<longrightarrow>
        (\<exists>en. map_of (aggregate ?es) ''Python'' = Some en
            \<and> lang_size en =
                Num (real (sum_list (map edge_size
                  (filter (\<lambda>x. node_name (edge_node x) = ''Jupyter Notebook''
                             \<or> node_name (edge_node x) = ''Python'') ?es)))))
        \<and> (\<exists>en. map_of ?out ''Python'' = Some en)"
  proof
    assume h: "e \<in> set ?es \<and> node_name (edge_node e) = ''Jupyter Notebook''"
    then have "''Python'' \<in> normalizedName ` set ?es"
      using a by (metis image_eqI)
    then obtain en where en: "map_of (aggregate ?es) ''Python'' = Some en"
      using aggregate_present by blast
    have "lang_size en = Num (real (size_sum ''Python'' ?es))"
      using python_ordinary(1) en by (rule aggregate_size)
    then have "lang_size en =
                Num (real (sum_list (map edge_size
                  (filter (\<lambda>x. node_name (edge_node x) = ''Jupyter Notebook''
                             \<or> node_name (edge_node x) = ''Python'') ?es))))"
      by (simp add: size_sum_def normalizedName_python_iff)
    moreover have "map_of ?out ''Python'' = Some (weigh size_weight count_weight en)"
      using en python_ordinary(2) by (simp add: map_of_top_languages)
    ultimately show "(\<exists>en. map_of (aggregate ?es) ''Python'' = Some en
            \<and> lang_size en =
                Num (real (sum_list (map edge_size
                  (filter (\<lambda>x. node_name (edge_node x) = ''Jupyter Notebook''
                             \<or> node_name (edge_node x) = ''Python'') ?es)))))
        \<and> (\<exists>en. map_of ?out ''Python'' = Some en)"
      using en by blast
  qed
  have "map_of (aggregate ?es) ''Jupyter Notebook'' = None"
    by (rule aggregate_absent) (metis imageE normalizedName_not_jupyter)
  then have "map_of ?out ''Jupyter Notebook'' = None"
    by (simp add: map_of_top_languages)
  then have c: "''Jupyter Notebook'' \<notin> fst ` set ?out"
    by (simp add: map_of_eq_None_iff)
  have d: "\<forall>en. map_of ?out ''Python'' = Some en \<longrightarrow>
            lang_name en = ''Python'' \<and> lang_color en = ''#3572A5''"
  proof (intro allI impI)
    fix en assume "map_of ?out ''Python'' = Some en"
    then obtain e0 where e0: "map_of (aggregate ?es) ''Python'' = Some e0"
      and en: "en = weigh size_weight count_weight e0"
      using python_ordinary(2) by (auto simp: map_of_top_languages)
    show "lang_name en = ''Python'' \<and> lang_color en = ''#3572A5''"
      using aggregate_entry[OF e0] en by (simp add: weigh_fields)
  qed
  from a b c d show ?thesis by blast
qed

theorem jupyter_counts_as_python_witness:
  "(\<exists>en. map_of (aggregate (flatten_edges (visible_repos []
             [mk_repo ''A'' [mk_edge 200 ''Jupyter Notebook'' ''#DA5B0B''],
              mk_repo ''B'' [mk_edge 100 ''Python'' ''#3572A5'']]))) ''Python'' = Some en
         \<and> lang_size en = Num 300)
   \<and> (\<exists>en. map_of (top_languages
             [mk_repo ''A'' [mk_edge 200 ''Jupyter Notebook'' ''#DA5B0B''],
              mk_repo ''B'' [mk_edge 100 ''Python'' ''#3572A5'']] [] 1 0) ''Python'' = Some en
         \<and> lang_color en = ''#3572A5'')"
proof -
  let ?nodes = "[mk_repo ''A'' [mk_edge 200 ''Jupyter Notebook'' ''#DA5B0B''],
                 mk_repo ''B'' [mk_edge 100 ''Python'' ''#3572A5'']]"
  let ?e = "mk_edge 200 ''Jupyter Notebook'' ''#DA5B0B''"
  note t = jupyter_counts_as_python[of ?e "[]" ?nodes 1 0]
  have h: "?e \<in> set (flatten_edges (visible_repos [] ?nodes))
           \<and> node_name (edge_node ?e) = ''Jupyter Notebook''"
    by (simp add: flatten_scenario2) (simp add: mk_edge_def)
  from t h obtain en where
    en: "map_of (aggregate (flatten_edges (visible_repos [] ?nodes))) ''Python'' = Some en"
    and sz: "lang_size en =
                Num (real (sum_list (map edge_size
                  (filter (\<lambda>x. node_name (edge_node x) = ''Jupyter Notebook''
                             \<or> node_name (edge_node x) = ''Python'')
                     (flatten_edges (visible_repos [] ?nodes))))))"
    by blast
  have "lang_size en = Num 300"
    using sz by (simp add: flatten_scenario2) (simp add: mk_edge_def)
  then have first: "\<exists>en. map_of (aggregate (flatten_edges (visible_repos [] ?nodes))) ''Python''
                     = Some en \<and> lang_size en = Num 300"
    using en by blast
  from t h obtain en' where en': "map_of (top_languages ?nodes [] 1 0) ''Python'' = Some en'"
    by blast
  then have "lang_color en' = ''#3572A5''" using t by blast
  then show ?thesis using first en' by blast
qed

text \<open>
  Claim C4: the result is in descending order of the weighted size. The code breaks this
  at a language whose name is an array index, here \<open>1\<close>: the result object, filled
  in sorted order, enumerates such a key before every other key whatever its size is,
  and lists size 10 before size 1000. For names that are neither array indices nor
  inherited, and weighted sizes that are not NaN, the statement is
  \<open>ranked_descending\<close>.
\<close>

theorem array_index_language_listed_first:
  "top_languages [mk_repo ''A'' [mk_edge 10 ''1'' ''#111111''],
                  mk_repo ''B'' [mk_edge 1000 ''Rust'' ''#dea584'']] [] 1 0 =
     [(''1'', \<lparr>lang_name = ''1'', lang_color = ''#111111'', lang_size = Num 10,
               lang_count = 1\<rparr>),
      (''Rust'', \<lparr>lang_name = ''Rust'', lang_color = ''#dea584'', lang_size = Num 1000,
                  lang_count = 1\<rparr>)]
   \<and> \<not> descending
        (top_languages [mk_repo ''A'' [mk_edge 10 ''1'' ''#111111''],
                        mk_repo ''B'' [mk_edge 1000 ''Rust'' ''#dea584'']] [] 1 0)"
proof -
  have e: "top_languages [mk_repo ''A'' [mk_edge 10 ''1'' ''#111111''],
                  mk_repo ''B'' [mk_edge 1000 ''Rust'' ''#dea584'']] [] 1 0 =
     [(''1'', \<lparr>lang_name = ''1'', lang_color = ''#111111'', lang_size = Num 10,
               lang_count = 1\<rparr>),
      (''Rust'', \<lparr>lang_name = ''Rust'', lang_color = ''#dea584'', lang_size = Num 1000,
                  lang_count = 1\<rparr>)]"
    by (simp add: eval_defs eval_numbers)
  show ?thesis unfolding e by (simp add: descending_def)
qed




text \<open>
  Claim C6. When \<open>username\<close> is absent or the empty string, the call fails with the
  missing-parameter error that names \<open>username\<close>, and it does so before the retryer
  is called: the world, which counts the calls of the retryer, is returned unchanged,
  whatever the retryer and the other arguments are.
\<close>

theorem missing_username_before_retryer:
  assumes "username = None \<or> username = Some []"
  shows "fetchTopLanguages retryer wrapTextMultiline username exclude_repo size_weight
           count_weight w = (Inl (MissingParamError [''username'']), w)"
  using assms by (auto simp: fetchTopLanguages_def)

theorem missing_username_before_retryer_witness:
  "fetchTopLanguages (constant_retryer (ok_response [mk_repo ''A'' [mk_edge 100 ''JS'' ''#f1e05a'']]))
     no_wrap (Some []) None None None world0
   = (Inl (MissingParamError [''username'']), world0)
   \<and> retryer_calls (snd (fetchTopLanguages
         (constant_retryer (ok_response [mk_repo ''A'' [mk_edge 100 ''JS'' ''#f1e05a'']]))
         no_wrap None (Some [''B'']) (Some 1) (Some 0) world0)) = 0"
proof -
  have a: "(Some [] :: string option) = None \<or> (Some [] :: string option) = Some []" by simp
  have b: "(None :: string option) = None \<or> (None :: string option) = Some []" by simp
  show ?thesis
    using missing_username_before_retryer[OF a] missing_username_before_retryer[OF b]
    by (simp add: world0_def)
qed

text \<open>
  Claim C7, as stated, fails: a first error of type \<open>NOT_FOUND\<close> whose message is
  present but empty gives the fallback message, because the source selects the message
  with \<open>||\<close>.
\<close>

theorem user_not_found_empty_message_counterexample:
  "fst (fetchTopLanguages
          (constant_retryer (error_response
             [\<lparr>error_type = Some ''NOT_FOUND'', error_message = Some ''''\<rparr>]))
          no_wrap (Some ''octocat'') None None None world0)
     = Inl (CustomError (Some ''Could not fetch user.'') USER_NOT_FOUND)
   \<and> fst (fetchTopLanguages
          (constant_retryer (error_response
             [\<lparr>error_type = Some ''NOT_FOUND'', error_message = Some ''''\<rparr>]))
          no_wrap (Some ''octocat'') None None None world0)
     \<noteq> Inl (CustomError (Some '''') USER_NOT_FOUND)"
  by (simp add: fetchTopLanguages_def error_response_def constant_retryer_def Let_def)

text \<open>
  Claim C7, amended. When the first error of the response has type \<open>NOT_FOUND\<close>, the
  call fails with the user-not-found error; its message is the message of that error
  when it is present and not empty, and \<open>Could not fetch user.\<close> when it is absent
  or empty.
\<close>

theorem user_not_found_message:
  assumes "username = Some login" and "login \<noteq> []"
    and "retryer login = Inr res"
    and "res_errors res = Some (first # rest)"
    and "error_type first = Some ''NOT_FOUND''"
  shows "fst (fetchTopLanguages retryer wrapTextMultiline username exclude_repo size_weight
                count_weight w) =
         Inl (CustomError
                (case error_message first of
                   None \<Rightarrow> Some ''Could not fetch user.''
                 | Some m \<Rightarrow> if m = [] then Some ''Could not fetch user.'' else Some m)
                USER_NOT_FOUND)"
  using assms by (simp add: fetchTopLanguages_def Let_def)

theorem user_not_found_message_witness:
  "fst (fetchTopLanguages
          (constant_retryer (error_response
             [\<lparr>error_type = Some ''NOT_FOUND'', error_message = Some ''No such user''\<rparr>]))
          no_wrap (Some ''octocat'') None None None world0)
     = Inl (CustomError (Some ''No such user'') USER_NOT_FOUND)
   \<and> fst (fetchTopLanguages
          (constant_retryer (error_response
             [\<lparr>error_type = Some ''NOT_FOUND'', error_message = None\<rparr>]))
          no_wrap (Some ''octocat'') None None None world0)
     = Inl (CustomError (Some ''Could not fetch user.'') USER_NOT_FOUND)"
proof -
  have u: "Some ''octocat'' = Some ''octocat''" and l: "''octocat'' \<noteq> []" by simp_all
  have r1: "(constant_retryer (error_response
             [\<lparr>error_type = Some ''NOT_FOUND'', error_message = Some ''No such user''\<rparr>]))
             ''octocat'' = Inr (error_response
             [\<lparr>error_type = Some ''NOT_FOUND'', error_message = Some ''No such user''\<rparr>])"
    by (simp add: constant_retryer_def)
  have e1: "res_errors (error_response
             [\<lparr>error_type = Some ''NOT_FOUND'', error_message = Some ''No such user''\<rparr>])
           = Some (\<lparr>error_type = Some ''NOT_FOUND'', error_message = Some ''No such user''\<rparr> # [])"
    by (simp add: error_response_def)
  have t1: "error_type \<lparr>error_type = Some ''NOT_FOUND'', error_message = Some ''No such user''\<rparr>
            = Some ''NOT_FOUND''" by simp
  have r2: "(constant_retryer (error_response
             [\<lparr>error_type = Some ''NOT_FOUND'', error_message = None\<rparr>]))
             ''octocat'' = Inr (error_response
             [\<lparr>error_type = Some ''NOT_FOUND'', error_message = None\<rparr>])"
    by (simp add: constant_retryer_def)
  have e2: "res_errors (error_response
             [\<lparr>error_type = Some ''NOT_FOUND'', error_message = None\<rparr>])
           = Some (\<lparr>error_type = Some ''NOT_FOUND'', error_message = None\<rparr> # [])"
    by (simp add: error_response_def)
  have t2: "error_type \<lparr>error_type = Some ''NOT_FOUND'', error_message = None\<rparr>
            = Some ''NOT_FOUND''" by simp
  show ?thesis
    using user_not_found_message[where retryer = "constant_retryer (error_response
             [\<lparr>error_type = Some ''NOT_FOUND'', error_message = Some ''No such user''\<rparr>])"
          and login = "''octocat''" and wrapTextMultiline = no_wrap and exclude_repo = None
          and size_weight = None and count_weight = None and w = world0,
          OF u l r1 e1 t1]
      user_not_found_message[where retryer = "constant_retryer (error_response
             [\<lparr>error_type = Some ''NOT_FOUND'', error_message = None\<rparr>])"
          and login = "''octocat''" and wrapTextMultiline = no_wrap and exclude_repo = None
          and size_weight = None and count_weight = None and w = world0,
          OF u l r2 e2 t2]
    by simp
qed

text \<open>
  Claim C8. When no repository carries a size, the comparator of the pre-sort yields NaN
  for every pair, the pre-sort returns the list as it is, and the repositories that
  remain after hiding are a filter of the original list, in their original order.
\<close>

theorem presort_stable_noop:
  assumes "\<forall>r\<in>set repoNodes. repo_size r = None"
  shows "(\<forall>a\<in>set repoNodes. \<forall>b\<in>set repoNodes. repo_cmp a b = NaN)
       \<and> presort repoNodes = repoNodes
       \<and> visible_repos exclude_repo repoNodes =
           filter (\<lambda>repo. \<not> is_hidden exclude_repo (repo_name repo)) repoNodes"
  using assms
  by (simp add: presort_no_sizes visible_repos_def repo_cmp_def repo_size_number_def)

theorem presort_stable_noop_witness:
  "presort [mk_repo ''A'' [mk_edge 10 ''Go'' ''#00ADD8''],
            mk_repo ''B'' [mk_edge 1000 ''Rust'' ''#dea584''],
            mk_repo ''C'' [mk_edge 5 ''Go'' ''#00ADD8'']]
     = [mk_repo ''A'' [mk_edge 10 ''Go'' ''#00ADD8''],
        mk_repo ''B'' [mk_edge 1000 ''Rust'' ''#dea584''],
        mk_repo ''C'' [mk_edge 5 ''Go'' ''#00ADD8'']]
   \<and> visible_repos [''B'']
        [mk_repo ''A'' [mk_edge 10 ''Go'' ''#00ADD8''],
         mk_repo ''B'' [mk_edge 1000 ''Rust'' ''#dea584''],
         mk_repo ''C'' [mk_edge 5 ''Go'' ''#00ADD8'']]
     = [mk_repo ''A'' [mk_edge 10 ''Go'' ''#00ADD8''],
        mk_repo ''C'' [mk_edge 5 ''Go'' ''#00ADD8'']]"
proof -
  have h: "\<forall>r\<in>set [mk_repo ''A'' [mk_edge 10 ''Go'' ''#00ADD8''],
            mk_repo ''B'' [mk_edge 1000 ''Rust'' ''#dea584''],
            mk_repo ''C'' [mk_edge 5 ''Go'' ''#00ADD8'']]. repo_size r = None"
    by (simp add: mk_repo_def)
  show ?thesis
    using presort_stable_noop[OF h, of "[''B'']"]
    by (simp add: is_hidden_iff object_prototype_keys_def mk_repo_def)
qed




text \<open>
  Claim C10. A repository whose name is a property name inherited from
  \<open>Object.prototype\<close> is removed by the filter whatever the exclusion list is, also
  when that list is empty; the edges that reach the aggregation are edges of
  repositories without such a name; alone in the input, its edges leave the result
  empty.
\<close>

theorem prototype_named_repo_hidden:
  assumes "repo_name r \<in> set object_prototype_keys"
  shows "r \<notin> set (visible_repos exclude_repo repoNodes)
       \<and> set (flatten_edges (visible_repos exclude_repo repoNodes))
           \<subseteq> (\<Union>r'\<in>{r' \<in> set repoNodes. repo_name r' \<notin> set object_prototype_keys}.
                 set (repo_edges r'))
       \<and> top_languages [r] exclude_repo size_weight count_weight = []"
proof -
  have "visible_repos exclude_repo [r] = []"
    using assms by (simp add: visible_repos_def presort_def is_hidden_iff)
  then have a: "top_languages [r] exclude_repo size_weight count_weight = []"
    by (simp add: top_languages_def flatten_edges_def aggregate_def aggregate_state_def
        weighting_def topLangs_def Object_keys_def)
  have b: "set (flatten_edges (visible_repos exclude_repo repoNodes))
           \<subseteq> (\<Union>r'\<in>{r' \<in> set repoNodes. repo_name r' \<notin> set object_prototype_keys}.
                 set (repo_edges r'))"
    by (auto simp: set_flatten_edges set_visible_repos)
  have c: "r \<notin> set (visible_repos exclude_repo repoNodes)"
    using assms by (simp add: set_visible_repos)
  from a b c show ?thesis by blast
qed

theorem prototype_named_repo_hidden_witness:
  "''constructor'' \<notin> set ([] :: string list)
   \<and> mk_repo ''constructor'' [mk_edge 100 ''JavaScript'' ''#f1e05a'']
       \<notin> set (visible_repos []
                 [mk_repo ''constructor'' [mk_edge 100 ''JavaScript'' ''#f1e05a''],
                  mk_repo ''B'' [mk_edge 50 ''JavaScript'' ''#f1e05a'']])
   \<and> top_languages [mk_repo ''constructor'' [mk_edge 100 ''JavaScript'' ''#f1e05a'']] [] 1 0 = []
   \<and> top_languages [mk_repo ''toString'' [mk_edge 100 ''JavaScript'' ''#f1e05a'']] [] 1 0 = []
   \<and> top_languages [mk_repo ''hasOwnProperty'' [mk_edge 100 ''JavaScript'' ''#f1e05a'']] [] 1 0 = []"
proof -
  have c: "repo_name (mk_repo ''constructor'' [mk_edge 100 ''JavaScript'' ''#f1e05a''])
             \<in> set object_prototype_keys"
    by (simp add: mk_repo_def object_prototype_keys_def)
  have t: "repo_name (mk_repo ''toString'' [mk_edge 100 ''JavaScript'' ''#f1e05a''])
             \<in> set object_prototype_keys"
    by (simp add: mk_repo_def object_prototype_keys_def)
  have h: "repo_name (mk_repo ''hasOwnProperty'' [mk_edge 100 ''JavaScript'' ''#f1e05a''])
             \<in> set object_prototype_keys"
    by (simp add: mk_repo_def object_prototype_keys_def)
  show ?thesis
    using prototype_named_repo_hidden[OF c, of "[]"
        "[mk_repo ''constructor'' [mk_edge 100 ''JavaScript'' ''#f1e05a''],
          mk_repo ''B'' [mk_edge 50 ''JavaScript'' ''#f1e05a'']]" 1 0]
      prototype_named_repo_hidden[OF t, of "[]" "[]" 1 0]
      prototype_named_repo_hidden[OF h, of "[]" "[]" 1 0]
    by simp
qed

end
